theory Spec2Isabelle
  imports Main "HOL-Library.AList"
begin

section \<open>JavaScript values\<close>

text \<open>
  The program handles data that comes out of \<^verbatim>\<open>JSON.parse\<close> (the base dataset, the
  persisted overlay, the suggestion payload) and objects it builds itself. A value is
  modelled as a JSON tree, with \<open>JUndef\<close> for \<^verbatim>\<open>undefined\<close>. An object is an association
  list in insertion order, read with \<open>map_of\<close>.

  Assumptions of the model, each on inputs no claim below is about:
  \<^item> a number is an integer (\<open>JNum n\<close> stands for the double \<open>n\<close>, \<open>|n| < 2^53\<close>);
  \<^item> a string is a list of ASCII characters;
  \<^item> objects are compared by structure; where the source compares by reference
    (\<^verbatim>\<open>Set.has\<close>, \<^verbatim>\<open>===\<close>) two objects or arrays never compare equal, since the values
    compared come from different documents;
  \<^item> a key of an object never names a member of \<^verbatim>\<open>Object.prototype\<close>
    (\<^verbatim>\<open>constructor\<close>, \<^verbatim>\<open>__proto__\<close>, ...), and the order in which an object lists
    integer-like keys is not modelled.
\<close>

datatype json =
    JUndef
  | JNull
  | JBool bool
  | JNum int
  | JStr string
  | JArr "json list"
  | JObj "(string \<times> json) list"

type_synonym obj = "(string \<times> json) list"

datatype error = TypeError | Error string

text \<open>\<^verbatim>\<open>!!v\<close>: the values JavaScript treats as true in a condition.\<close>

fun truthy :: "json \<Rightarrow> bool" where
  "truthy JUndef = False"
| "truthy JNull = False"
| "truthy (JBool b) = b"
| "truthy (JNum n) = (n \<noteq> 0)"
| "truthy (JStr s) = (s \<noteq> [])"
| "truthy (JArr xs) = True"
| "truthy (JObj kvs) = True"

text \<open>\<^verbatim>\<open>v === null || v === undefined\<close>: reading a property of such a value throws.\<close>

fun nullish :: "json \<Rightarrow> bool" where
  "nullish JUndef = True"
| "nullish JNull = True"
| "nullish v = False"

text \<open>\<^verbatim>\<open>typeof v === "object"\<close> (true of \<^verbatim>\<open>null\<close> and of arrays) and \<^verbatim>\<open>typeof v === "string"\<close>.\<close>

fun typeof_object :: "json \<Rightarrow> bool" where
  "typeof_object JNull = True"
| "typeof_object (JArr xs) = True"
| "typeof_object (JObj kvs) = True"
| "typeof_object v = False"

fun typeof_string :: "json \<Rightarrow> bool" where
  "typeof_string (JStr s) = True"
| "typeof_string v = False"

fun isArray :: "json \<Rightarrow> bool" where
  "isArray (JArr xs) = True"
| "isArray v = False"

text \<open>\<^verbatim>\<open>a || b\<close> and \<^verbatim>\<open>a ?? b\<close> on values.\<close>

definition or_else :: "json \<Rightarrow> json \<Rightarrow> json" where
  "or_else a b = (if truthy a then a else b)"

definition coalesce :: "json \<Rightarrow> json \<Rightarrow> json" where
  "coalesce a b = (if nullish a then b else a)"

text \<open>The decimal digits of a natural number, as \<^verbatim>\<open>String(n)\<close> prints them.\<close>

fun dec_nat :: "nat \<Rightarrow> string" where
  "dec_nat n =
     (if n < 10 then [''0123456789'' ! n]
      else dec_nat (n div 10) @ [''0123456789'' ! (n mod 10)])"

declare dec_nat.simps [simp del]

definition dec_int :: "int \<Rightarrow> string" where
  "dec_int n = (if n < 0 then CHR ''-'' # dec_nat (nat (- n)) else dec_nat (nat n))"

text \<open>
  \<^verbatim>\<open>String(v)\<close>, which is also how a value becomes a property key in \<^verbatim>\<open>o[v]\<close>. An
  array joins its elements with commas (\<^verbatim>\<open>null\<close> and \<^verbatim>\<open>undefined\<close> print empty); an
  object prints \<^verbatim>\<open>[object Object]\<close>, unless it has a \<^verbatim>\<open>toString\<close> entry of its own:
  that entry is data, not a function, and the conversion throws (\<open>None\<close>).
\<close>

fun join_comma :: "string list \<Rightarrow> string" where
  "join_comma [] = []"
| "join_comma [s] = s"
| "join_comma (s # t # r) = s @ CHR '','' # join_comma (t # r)"

fun to_str :: "json \<Rightarrow> string option" where
  "to_str JUndef = Some ''undefined''"
| "to_str JNull = Some ''null''"
| "to_str (JBool b) = Some (if b then ''true'' else ''false'')"
| "to_str (JNum n) = Some (dec_int n)"
| "to_str (JStr s) = Some s"
| "to_str (JArr xs) =
     map_option join_comma
       (those (map (\<lambda>x. if x = JUndef \<or> x = JNull then Some [] else to_str x) xs))"
| "to_str (JObj kvs) =
     (if ''toString'' \<in> fst ` set kvs then None else Some ''[object Object]'')"

text \<open>
  \<^verbatim>\<open>v[k]\<close> for a string key on a value that is not \<^verbatim>\<open>null\<close> or \<^verbatim>\<open>undefined\<close>: an
  entry of an object, an element or the length of an array or string, otherwise
  \<^verbatim>\<open>undefined\<close>.
\<close>

definition index_of_key :: "nat \<Rightarrow> string \<Rightarrow> nat option" where
  "index_of_key n k = find (\<lambda>i. dec_nat i = k) [0..<n]"

fun get_prop :: "json \<Rightarrow> string \<Rightarrow> json" where
  "get_prop (JObj kvs) k = (case map_of kvs k of Some v \<Rightarrow> v | None \<Rightarrow> JUndef)"
| "get_prop (JArr xs) k =
     (if k = ''length'' then JNum (int (length xs))
      else case index_of_key (length xs) k of Some i \<Rightarrow> xs ! i | None \<Rightarrow> JUndef)"
| "get_prop (JStr s) k =
     (if k = ''length'' then JNum (int (length s))
      else case index_of_key (length s) k of Some i \<Rightarrow> JStr [s ! i] | None \<Rightarrow> JUndef)"
| "get_prop v k = JUndef"

text \<open>
  The own enumerable properties of a value, which \<^verbatim>\<open>{...v}\<close>, \<^verbatim>\<open>Object.assign\<close> and
  \<^verbatim>\<open>Object.keys\<close> read: the entries of an object, the indexed elements of an array or
  string, nothing for other values.
\<close>

fun own_props :: "json \<Rightarrow> obj" where
  "own_props (JObj kvs) = kvs"
| "own_props (JArr xs) = zip (map dec_nat [0..<length xs]) xs"
| "own_props (JStr s) = zip (map dec_nat [0..<length s]) (map (\<lambda>c. JStr [c]) s)"
| "own_props v = []"

text \<open>
  Writing properties in turn into an object: a key already there keeps its place and
  takes the new value, a new key goes last. \<^verbatim>\<open>{...a, ...b}\<close> is a fresh object with
  the properties of \<^verbatim>\<open>a\<close>, into which those of \<^verbatim>\<open>b\<close> are then written.
\<close>

definition assign_props :: "obj \<Rightarrow> obj \<Rightarrow> obj" where
  "assign_props target ps = fold (\<lambda>(k, v). AList.update k v) ps target"

definition spread2 :: "json \<Rightarrow> json \<Rightarrow> json" where
  "spread2 a b = JObj (assign_props (own_props a) (own_props b))"

text \<open>
  \<^verbatim>\<open>Set.prototype.has\<close> and \<^verbatim>\<open>Array.prototype.includes\<close> compare with SameValueZero:
  primitives by value, objects and arrays by reference.
\<close>

fun same_value_zero :: "json \<Rightarrow> json \<Rightarrow> bool" where
  "same_value_zero (JArr xs) v = False"
| "same_value_zero (JObj kvs) v = False"
| "same_value_zero u v = (u = v)"

definition has_value :: "json list \<Rightarrow> json \<Rightarrow> bool" where
  "has_value xs v = list_ex (\<lambda>x. same_value_zero x v) xs"

section \<open>Overlays\<close>

text \<open>
  The overlay has the shape \<^verbatim>\<open>defaultOverlays()\<close> builds. A patch of \<open>task_overrides\<close>
  is an object; the items of \<open>new_tasks\<close> and the ids of \<open>deletions\<close> are values the
  code guards itself.
\<close>

record stats =
  moves :: int
  completes :: int

record learning =
  completion_log :: "json list"
  move_log :: "json list"
  stats :: stats

record overlays =
  version :: json
  updated_at :: json
  deletions :: "json list"
  task_overrides :: "(string \<times> obj) list"
  new_tasks :: "json list"
  recurrence_overrides :: obj
  learning :: learning

definition OVERLAYS_VERSION :: int where
  "OVERLAYS_VERSION = 1"

text \<open>\<^verbatim>\<open>defaultOverlays()\<close>; \<open>now\<close> is what \<^verbatim>\<open>new Date().toISOString()\<close> returns.\<close>

definition defaultOverlays :: "string \<Rightarrow> overlays" where
  "defaultOverlays now =
     \<lparr> version = JNum OVERLAYS_VERSION,
       updated_at = JStr now,
       deletions = [],
       task_overrides = [],
       new_tasks = [],
       recurrence_overrides = [],
       learning = \<lparr> completion_log = [], move_log = [], stats = \<lparr> moves = 0, completes = 0 \<rparr> \<rparr> \<rparr>"

section \<open>Merge\<close>

text \<open>
  The merged view \<^verbatim>\<open>{ ...base, tasks, events, recurrence_rules, __overlays }\<close>:
  \<open>base_props\<close> holds the properties spread from the base dataset, the three lists
  replace the base's own, and \<open>overlays_ref\<close> is the overlay object itself.
\<close>

record merged =
  base_props :: obj
  tasks :: "json list"
  events :: "json list"
  recurrence_rules :: "json list"
  overlays_ref :: overlays

text \<open>\<^verbatim>\<open>Array.isArray(v) ? v : []\<close>\<close>

fun array_or_empty :: "json \<Rightarrow> json list" where
  "array_or_empty (JArr xs) = xs"
| "array_or_empty v = []"

text \<open>\<^verbatim>\<open>t && t.id && !deletions.has(t.id)\<close>\<close>

definition keeps :: "json list \<Rightarrow> json \<Rightarrow> bool" where
  "keeps dels t = (truthy t \<and> truthy (get_prop t ''id'') \<and> \<not> has_value dels (get_prop t ''id''))"

text \<open>
  \<^verbatim>\<open>overrides[t.id] ? { ...t, ...overrides[t.id] } : t\<close>. The id becomes a property
  key, which throws for an id that has no string form.
\<close>

definition apply_override :: "(string \<times> obj) list \<Rightarrow> json \<Rightarrow> error + json" where
  "apply_override overrides t =
     (case to_str (get_prop t ''id'') of
        None \<Rightarrow> Inl TypeError
      | Some k \<Rightarrow>
          (case map_of overrides k of
             None \<Rightarrow> Inr t
           | Some patch \<Rightarrow> Inr (spread2 t (JObj patch))))"

text \<open>\<^verbatim>\<open>xs.map(f)\<close> for an \<open>f\<close> that may throw: the first throw leaves the loop.\<close>

fun map_err :: "('a \<Rightarrow> error + 'b) \<Rightarrow> 'a list \<Rightarrow> error + 'b list" where
  "map_err f [] = Inr []"
| "map_err f (x # xs) =
     (case f x of
        Inl e \<Rightarrow> Inl e
      | Inr y \<Rightarrow> (case map_err f xs of Inl e \<Rightarrow> Inl e | Inr ys \<Rightarrow> Inr (y # ys)))"

text \<open>The loop over \<open>new_tasks\<close>: skip \<^verbatim>\<open>!nt || !nt.id\<close>, skip a deleted id, keep the rest.\<close>

definition appended :: "json list \<Rightarrow> json list \<Rightarrow> json list" where
  "appended dels newTasks =
     filter (\<lambda>nt. \<not> (\<not> truthy nt \<or> \<not> truthy (get_prop nt ''id'')) \<and> \<not> has_value dels (get_prop nt ''id''))
       newTasks"

definition mergeData :: "json \<Rightarrow> overlays \<Rightarrow> error + merged" where
  "mergeData base ov =
     (if nullish base then Inl TypeError
      else
        let baseTasks = array_or_empty (get_prop base ''tasks'');
            baseEvents = array_or_empty (get_prop base ''events'');
            recRules = array_or_empty (get_prop base ''recurrence_rules'');
            dels = deletions ov;
            overrides = task_overrides ov;
            newTasks = new_tasks ov
        in
          (case map_err (apply_override overrides) (filter (keeps dels) baseTasks) of
             Inl e \<Rightarrow> Inl e
           | Inr ts \<Rightarrow>
               (case map_err (apply_override overrides) (filter (keeps dels) baseEvents) of
                  Inl e \<Rightarrow> Inl e
                | Inr es \<Rightarrow>
                    Inr \<lparr> base_props = own_props base,
                          tasks = ts @ appended dels newTasks,
                          events = es,
                          recurrence_rules = recRules,
                          overlays_ref = ov \<rparr>)))"

text \<open>
  What it is for \<open>item'\<close> to be \<open>item\<close> with its patch applied, in the words of the
  merge's contract: an item whose id has a patch is replaced by the shallow merge
  \<^verbatim>\<open>{...item, ...patch}\<close>, an item without one passes through unchanged.
\<close>

definition patched_by :: "(string \<times> obj) list \<Rightarrow> json \<Rightarrow> json \<Rightarrow> bool" where
  "patched_by overrides item item' =
     (case to_str (get_prop item ''id'') of
        None \<Rightarrow> False
      | Some k \<Rightarrow>
          (case map_of overrides k of
             None \<Rightarrow> item' = item
           | Some patch \<Rightarrow> item' = spread2 item (JObj patch)))"

text \<open>
  The recurring panel resolves a rule's switch when it renders
  (\<^verbatim>\<open>overrides[r.id]?.enabled ?? true\<close> in \<^verbatim>\<open>renderRecurring\<close>), over the rules of the
  merged view.
\<close>

definition rule_enabled :: "overlays \<Rightarrow> json \<Rightarrow> error + json" where
  "rule_enabled ov r =
     (if nullish r then Inl TypeError
      else case to_str (get_prop r ''id'') of
        None \<Rightarrow> Inl TypeError
      | Some k \<Rightarrow>
          let entry = (case map_of (recurrence_overrides ov) k of Some v \<Rightarrow> v | None \<Rightarrow> JUndef)
          in Inr (coalesce (if nullish entry then JUndef else get_prop entry ''enabled'') (JBool True)))"

section \<open>Concrete datasets\<close>

text \<open>
  A base dataset with a task \<open>a\<close>, and an overlay that deletes the id \<open>b\<close> and patches
  the id of task \<open>a\<close> to \<open>b\<close>.
\<close>

definition idpatch_base :: json where
  "idpatch_base =
     JObj [(''tasks'', JArr [JObj [(''id'', JStr ''a''), (''title'', JStr ''A'')]])]"

definition idpatch_ov :: overlays where
  "idpatch_ov = (defaultOverlays ''2024-01-01T00:00:00.000Z'')
     \<lparr> deletions := [JStr ''b''], task_overrides := [(''a'', [(''id'', JStr ''b'')])] \<rparr>"

text \<open>
  A base dataset with tasks \<open>a\<close> and \<open>b\<close> and an event \<open>b\<close>; an overlay that deletes
  \<open>b\<close>, retitles \<open>a\<close>, still holds a stale patch for \<open>b\<close>, and has two new tasks, one of
  them with the deleted id.
\<close>

definition del_base :: json where
  "del_base =
     JObj [(''tasks'', JArr [JObj [(''id'', JStr ''a''), (''title'', JStr ''A'')],
                             JObj [(''id'', JStr ''b''), (''title'', JStr ''B'')]]),
           (''events'', JArr [JObj [(''id'', JStr ''b'')]])]"

definition del_ov :: overlays where
  "del_ov = (defaultOverlays ''2024-01-01T00:00:00.000Z'')
     \<lparr> deletions := [JStr ''b''],
       task_overrides := [(''a'', [(''title'', JStr ''X'')]), (''b'', [(''title'', JStr ''Y'')])],
       new_tasks := [JObj [(''id'', JStr ''b'')], JObj [(''id'', JStr ''temp_1'')]] \<rparr>"

definition del_merged :: merged where
  "del_merged =
     \<lparr> base_props = own_props del_base,
       tasks = [JObj [(''id'', JStr ''a''), (''title'', JStr ''X'')], JObj [(''id'', JStr ''temp_1'')]],
       events = [],
       recurrence_rules = [],
       overlays_ref = del_ov \<rparr>"

text \<open>A base dataset with one task and one event, and an overlay that patches the event.\<close>

definition ev_base :: json where
  "ev_base =
     JObj [(''tasks'', JArr [JObj [(''id'', JStr ''t1''), (''title'', JStr ''Task'')]]),
           (''events'', JArr [JObj [(''id'', JStr ''e1''), (''title'', JStr ''Old''),
                                    (''start_date'', JStr ''2024-03-01'')]])]"

definition ev_ov :: overlays where
  "ev_ov = (defaultOverlays ''2024-01-01T00:00:00.000Z'')
     \<lparr> task_overrides := [(''e1'', [(''title'', JStr ''New'')])] \<rparr>"

definition ev_merged :: merged where
  "ev_merged =
     \<lparr> base_props = own_props ev_base,
       tasks = [JObj [(''id'', JStr ''t1''), (''title'', JStr ''Task'')]],
       events = [JObj [(''id'', JStr ''e1''), (''title'', JStr ''New''),
                       (''start_date'', JStr ''2024-03-01'')]],
       recurrence_rules = [],
       overlays_ref = ev_ov \<rparr>"

text \<open>A base dataset with one recurrence rule, which the overlay switches off.\<close>

definition rec_base :: json where
  "rec_base = JObj [(''recurrence_rules'', JArr [JObj [(''id'', JStr ''r1''), (''title'', JStr ''Weekly'')]])]"

definition rec_ov :: overlays where
  "rec_ov = (defaultOverlays ''2024-01-01T00:00:00.000Z'')
     \<lparr> recurrence_overrides := [(''r1'', JObj [(''enabled'', JBool False)])] \<rparr>"

definition rec_merged :: merged where
  "rec_merged =
     \<lparr> base_props = own_props rec_base,
       tasks = [],
       events = [],
       recurrence_rules = [JObj [(''id'', JStr ''r1''), (''title'', JStr ''Weekly'')]],
       overlays_ref = rec_ov \<rparr>"

section \<open>Strings\<close>

text \<open>\<^verbatim>\<open>s.startsWith(p)\<close>, \<^verbatim>\<open>s.toLowerCase()\<close> and \<^verbatim>\<open>s.trim()\<close> on ASCII strings.\<close>

definition startsWith :: "string \<Rightarrow> string \<Rightarrow> bool" where
  "startsWith s p = (take (length p) s = p)"

definition lower_char :: "char \<Rightarrow> char" where
  "lower_char c =
     (case map_of (zip ''ABCDEFGHIJKLMNOPQRSTUVWXYZ'' ''abcdefghijklmnopqrstuvwxyz'') c of
        Some l \<Rightarrow> l
      | None \<Rightarrow> c)"

definition toLowerCase :: "string \<Rightarrow> string" where
  "toLowerCase s = map lower_char s"

definition is_space :: "char \<Rightarrow> bool" where
  "is_space c = (c \<in> set [CHR 0x09, CHR 0x0A, CHR 0x0B, CHR 0x0C, CHR 0x0D, CHR '' ''])"

definition trim :: "string \<Rightarrow> string" where
  "trim s = rev (dropWhile is_space (rev (dropWhile is_space s)))"

section \<open>Item types\<close>

text \<open>
  \<^verbatim>\<open>normalizeType\<close> of the application: \<^verbatim>\<open>(t || "").toLowerCase().trim()\<close>, which throws
  for a value that is true in a condition and is not a string. Both branches after the
  test for the empty string return \<open>v\<close>, as in the source.
\<close>

definition normalizeType :: "json \<Rightarrow> error + string" where
  "normalizeType t =
     (case or_else t (JStr []) of
        JStr s \<Rightarrow>
          (let v = trim (toLowerCase s)
           in if v = [] then Inr []
              else if v = ''event'' \<or> v = ''meeting'' \<or> v = ''task'' then Inr v
              else Inr v)
      | _ \<Rightarrow> Inl TypeError)"

text \<open>
  \<^verbatim>\<open>normalizeType\<close> of the context builder (the copy in the file that builds the
  context sent to the completion service), which falls back to \<^verbatim>\<open>"task"\<close>.
\<close>

definition normalizeType_context :: "json \<Rightarrow> error + string" where
  "normalizeType_context t =
     (case or_else t (JStr []) of
        JStr s \<Rightarrow>
          (let v = trim (toLowerCase s)
           in if v = [] then Inr ''task''
              else if v = ''event'' \<or> v = ''meeting'' \<or> v = ''task'' then Inr v
              else Inr ''task'')
      | _ \<Rightarrow> Inl TypeError)"

section \<open>Classifying suggested operations\<close>

definition safeFieldsAllow :: "string list" where
  "safeFieldsAllow =
     [''title'', ''notes'', ''pillar'', ''owner_id'', ''priority'', ''type'',
      ''estimated_minutes'', ''energy'']"

text \<open>\<^verbatim>\<open>Array.isArray(payload?.ops) ? payload.ops : []\<close>\<close>

definition payload_ops :: "json \<Rightarrow> json list" where
  "payload_ops payload = array_or_empty (if nullish payload then JUndef else get_prop payload ''ops'')"

text \<open>\<^verbatim>\<open>Object.keys(op.fields || {})\<close>\<close>

definition field_keys :: "json \<Rightarrow> string list" where
  "field_keys op = map fst (own_props (or_else (get_prop op ''fields'') (JObj [])))"

text \<open>
  One turn of the loop of \<^verbatim>\<open>splitAiOpsForAutoApply\<close>, on the pair of lists built so
  far; \<^verbatim>\<open>push\<close> appends.
\<close>

definition split_step :: "json list \<times> json list \<Rightarrow> json \<Rightarrow> json list \<times> json list" where
  "split_step acc op =
     (let autoOps = fst acc; reviewOps = snd acc in
      if \<not> truthy op \<or> \<not> typeof_object op then (autoOps, reviewOps)
      else if get_prop op ''op'' \<noteq> JStr ''update'' then (autoOps, reviewOps @ [op])
      else if (case get_prop op ''id'' of JStr s \<Rightarrow> startsWith s ''temp_'' | _ \<Rightarrow> True)
        then (autoOps, reviewOps @ [op])
      else
        let keys = field_keys op in
        if ''start_date'' \<in> set keys \<or> ''due_date'' \<in> set keys \<or> ''subtasks'' \<in> set keys
          then (autoOps, reviewOps @ [op])
        else if \<not> list_all (\<lambda>k. k \<in> set safeFieldsAllow) keys then (autoOps, reviewOps @ [op])
        else (autoOps @ [op], reviewOps))"

definition splitAiOpsForAutoApply :: "json \<Rightarrow> json list \<times> json list" where
  "splitAiOpsForAutoApply payload = foldl split_step ([], []) (payload_ops payload)"

text \<open>
  The policy in the words of its contract: an operation is applied without review when it
  is an update, its id is a string without the reserved prefix of temporary ids, and
  every key of its fields is on the allowlist.
\<close>

definition auto_appliable :: "json \<Rightarrow> bool" where
  "auto_appliable op =
     (get_prop op ''op'' = JStr ''update''
      \<and> (case get_prop op ''id'' of JStr s \<Rightarrow> \<not> startsWith s ''temp_'' | _ \<Rightarrow> False)
      \<and> set (field_keys op) \<subseteq> set safeFieldsAllow)"

text \<open>An element of \<open>ops\<close> that is an object (\<^verbatim>\<open>op && typeof op === "object"\<close>).\<close>

definition is_op_object :: "json \<Rightarrow> bool" where
  "is_op_object op = (truthy op \<and> typeof_object op)"

text \<open>
  A payload with five operations: a safe update, an update of a temporary id, an update
  of a date, a deletion and another safe update.
\<close>

definition split_payload :: json where
  "split_payload =
     JObj [(''summary'', JStr ''tidy''),
           (''ops'', JArr
              [JObj [(''op'', JStr ''update''), (''id'', JStr ''t1''),
                     (''fields'', JObj [(''title'', JStr ''X''), (''priority'', JNum 1)])],
               JObj [(''op'', JStr ''update''), (''id'', JStr ''temp_abc''),
                     (''fields'', JObj [(''title'', JStr ''Y'')])],
               JObj [(''op'', JStr ''update''), (''id'', JStr ''t3''),
                     (''fields'', JObj [(''due_date'', JStr ''2024-02-01'')])],
               JObj [(''op'', JStr ''delete''), (''id'', JStr ''t4'')],
               JObj [(''op'', JStr ''update''), (''id'', JStr ''t5''),
                     (''fields'', JObj [(''notes'', JStr ''n'')])]])]"

section \<open>Validating a suggestion payload\<close>

text \<open>The result of \<^verbatim>\<open>validatePayload\<close>: \<^verbatim>\<open>{ ok: true }\<close> or \<^verbatim>\<open>{ ok: false, error }\<close>.\<close>

datatype validation = Ok | Invalid string

definition allowed_ops :: "string list" where
  "allowed_ops = [''add'', ''update'', ''complete'', ''undo_complete'', ''delete'']"

text \<open>\<^verbatim>\<open>allowed.has(v)\<close> on the set of the five kinds.\<close>

definition allowed_has :: "json \<Rightarrow> bool" where
  "allowed_has v = (case v of JStr s \<Rightarrow> s \<in> set allowed_ops | _ \<Rightarrow> False)"

text \<open>
  The body of the loop of \<^verbatim>\<open>validatePayload\<close>. The message for an unsupported kind
  prints the kind into a template string, which throws for a value with no string form.
\<close>

definition check_op :: "json \<Rightarrow> error + validation" where
  "check_op op =
     (if \<not> truthy op \<or> \<not> typeof_object op then Inr (Invalid ''Bad op object'')
      else if \<not> allowed_has (get_prop op ''op'') then
        (case to_str (get_prop op ''op'') of
           None \<Rightarrow> Inl TypeError
         | Some s \<Rightarrow> Inr (Invalid (''Unsupported op: '' @ s)))
      else if \<not> truthy (get_prop op ''id'') \<or> \<not> typeof_string (get_prop op ''id'')
        then Inr (Invalid ''Op missing id'')
      else if (get_prop op ''op'' = JStr ''add'' \<or> get_prop op ''op'' = JStr ''update'')
              \<and> (\<not> truthy (get_prop op ''fields'') \<or> \<not> typeof_object (get_prop op ''fields''))
        then Inr (Invalid ''add/update must include fields{}'')
      else Inr Ok)"

fun validate_ops :: "json list \<Rightarrow> error + validation" where
  "validate_ops [] = Inr Ok"
| "validate_ops (op # ops) =
     (case check_op op of
        Inr Ok \<Rightarrow> validate_ops ops
      | r \<Rightarrow> r)"

definition validatePayload :: "json \<Rightarrow> error + validation" where
  "validatePayload payload =
     (if \<not> truthy payload \<or> \<not> typeof_object payload then Inr (Invalid ''Not an object'')
      else case get_prop payload ''ops'' of
        JArr ops \<Rightarrow> validate_ops ops
      | _ \<Rightarrow> Inr (Invalid ''Missing ops[]''))"

text \<open>
  The structural checks in the words of the contract: the payload is a non-null object,
  \<open>ops\<close> is an array, each element is a non-null object whose kind is one of the five,
  whose id is a non-empty string and, for an add or an update, whose fields are a non-null
  object.
\<close>

definition non_null_object :: "json \<Rightarrow> bool" where
  "non_null_object v = (case v of JObj kvs \<Rightarrow> True | JArr xs \<Rightarrow> True | _ \<Rightarrow> False)"

definition non_empty_string :: "json \<Rightarrow> bool" where
  "non_empty_string v = (case v of JStr s \<Rightarrow> s \<noteq> [] | _ \<Rightarrow> False)"

definition well_formed_op :: "json \<Rightarrow> bool" where
  "well_formed_op op =
     (non_null_object op
      \<and> get_prop op ''op'' \<in> JStr ` set allowed_ops
      \<and> non_empty_string (get_prop op ''id'')
      \<and> (if get_prop op ''op'' = JStr ''add'' \<or> get_prop op ''op'' = JStr ''update''
         then non_null_object (get_prop op ''fields'') else True))"

definition structurally_valid :: "json \<Rightarrow> bool" where
  "structurally_valid payload =
     (non_null_object payload
      \<and> (case get_prop payload ''ops'' of JArr ops \<Rightarrow> list_all well_formed_op ops | _ \<Rightarrow> False))"

section \<open>Extracting a payload from the response text\<close>

definition endsWith :: "string \<Rightarrow> string \<Rightarrow> bool" where
  "endsWith s p = (length p \<le> length s \<and> drop (length s - length p) s = p)"

text \<open>
  \<^verbatim>\<open>txt.match(/\{[\s\S]*\}/)\<close>. The search tries each start from the left. At a start
  that is an opening brace, the star first takes every remaining character and then
  gives them back one at a time until a closing brace follows: \<open>try_star rest k\<close> is the
  attempt in which the star has taken \<open>k\<close> characters of \<open>rest\<close>.
\<close>

fun try_star :: "string \<Rightarrow> nat \<Rightarrow> string option" where
  "try_star rest 0 =
     (if 0 < length rest \<and> rest ! 0 = CHR ''}'' then Some (take 1 rest) else None)"
| "try_star rest (Suc k) =
     (if Suc k < length rest \<and> rest ! Suc k = CHR ''}'' then Some (take (Suc (Suc k)) rest)
      else try_star rest k)"

definition match_here :: "string \<Rightarrow> string option" where
  "match_here s =
     (case s of
        [] \<Rightarrow> None
      | c # rest \<Rightarrow>
          if c = CHR ''{'' then map_option (\<lambda>m. c # m) (try_star rest (length rest)) else None)"

fun regex_search :: "string \<Rightarrow> string option" where
  "regex_search [] = None"
| "regex_search (c # rest) =
     (case match_here (c # rest) of
        Some m \<Rightarrow> Some m
      | None \<Rightarrow> regex_search rest)"

text \<open>
  \<^verbatim>\<open>tryParseJsonFromText\<close>. \<open>parse\<close> stands for \<^verbatim>\<open>JSON.parse\<close>: \<open>None\<close> when it throws.
\<close>

definition tryParseJsonFromText :: "(string \<Rightarrow> json option) \<Rightarrow> string \<Rightarrow> json" where
  "tryParseJsonFromText parse txt =
     (let direct = trim txt;
          first_try = (if startsWith direct ''{'' \<and> endsWith direct ''}'' then parse direct else None)
      in case first_try of
           Some v \<Rightarrow> v
         | None \<Rightarrow>
             (case regex_search txt of
                None \<Rightarrow> JNull
              | Some m \<Rightarrow> (case parse m of Some v \<Rightarrow> v | None \<Rightarrow> JNull)))"

text \<open>The text between the first opening brace and the last closing brace, both included.\<close>

definition brace_span :: "string \<Rightarrow> string option" where
  "brace_span txt =
     (let s = dropWhile (\<lambda>c. c \<noteq> CHR ''{'') txt
      in if CHR ''}'' \<in> set s then Some (rev (dropWhile (\<lambda>c. c \<noteq> CHR ''}'') (rev s))) else None)"

text \<open>
  \<^verbatim>\<open>runOps\<close>, after the call to the completion service: \<open>enabled\<close> is the setting,
  \<open>response\<close> what the awaited call gave (the text, or the error it threw).
\<close>

definition runOps :: "bool \<Rightarrow> (string \<Rightarrow> json option) \<Rightarrow> error + string \<Rightarrow> error + json" where
  "runOps enabled parse response =
     (if \<not> enabled then Inl (Error ''AI disabled'')
      else case response of
        Inl e \<Rightarrow> Inl e
      | Inr txt \<Rightarrow>
          (let payload = tryParseJsonFromText parse txt in
           if \<not> truthy payload then Inl (Error ''AI did not return valid JSON'')
           else case validatePayload payload of
             Inl e \<Rightarrow> Inl e
           | Inr (Invalid msg) \<Rightarrow> Inl (Error (''AI payload invalid: '' @ msg))
           | Inr Ok \<Rightarrow> Inr payload))"

section \<open>Application state\<close>

text \<open>
  The part of the global \<^verbatim>\<open>state\<close> the core touches, and what it writes to storage.
  \<open>merged\<close> is \<open>None\<close> until the first merge. \<open>pending_ops\<close> holds the operations of
  \<^verbatim>\<open>state.pendingAiPayload\<close> (\<open>None\<close> for \<^verbatim>\<open>null\<close>); the summary shown with them is
  display text and is left out. \<open>stored\<close> is the overlay last written under the storage
  key. The view in \<open>merged\<close> keeps the overlay it was built from; the source keeps a
  reference there that nothing reads.

  The clock and the random source are an environment: \<open>now_at w n\<close> is the timestamp the
  \<open>n\<close>-th read returns, \<open>fresh_at w n\<close> the suffix of a generated id
  (\<^verbatim>\<open>${Date.now().toString(36)}_${Math.random().toString(36).slice(2, 6)}\<close>),
  \<open>today_at w n\<close> the local calendar date (year, month, day) of the \<open>n\<close>-th read;
  \<open>reads\<close> counts the reads made so far.
\<close>

record world =
  now_at :: "nat \<Rightarrow> string"
  fresh_at :: "nat \<Rightarrow> string"
  today_at :: "nat \<Rightarrow> nat \<times> nat \<times> nat"

record app_state =
  base :: json
  overlays :: overlays
  merged :: "merged option"
  pending_ops :: "json list option"
  stored :: "overlays option"
  reads :: nat

text \<open>
  A function that changes the state returns the state it leaves behind together with
  its result or the error it threw: a throw does not undo the changes made before it.
\<close>

text \<open>
  \<^verbatim>\<open>saveOverlays\<close> stamps the overlay and writes it to storage, which is taken to
  accept the write; the line it prints about the stored sizes is display text.
\<close>

definition saveOverlays :: "world \<Rightarrow> app_state \<Rightarrow> app_state" where
  "saveOverlays w st =
     (let ov = (overlays st)\<lparr> updated_at := JStr (now_at w (reads st)) \<rparr>
      in st\<lparr> reads := Suc (reads st), overlays := ov, stored := Some ov \<rparr>)"

text \<open>
  \<^verbatim>\<open>ensurePatch(id)\<close>: the key of the patch, and the state in which the patch exists.
  The patch itself is read and written through the key.
\<close>

definition ensurePatch :: "json \<Rightarrow> app_state \<Rightarrow> error + (string \<times> app_state)" where
  "ensurePatch ident st =
     (case to_str ident of
        None \<Rightarrow> Inl TypeError
      | Some k \<Rightarrow>
          (case map_of (task_overrides (overlays st)) k of
             Some p \<Rightarrow> Inr (k, st)
           | None \<Rightarrow>
               Inr (k, st\<lparr> overlays := (overlays st)
                     \<lparr> task_overrides := AList.update k [] (task_overrides (overlays st)) \<rparr> \<rparr>)))"

text \<open>Writing properties into the patch stored under a key.\<close>

definition write_patch :: "string \<Rightarrow> obj \<Rightarrow> app_state \<Rightarrow> app_state" where
  "write_patch k props st =
     st\<lparr> overlays := (overlays st)
       \<lparr> task_overrides :=
           AList.update k
             (assign_props (case map_of (task_overrides (overlays st)) k of Some p \<Rightarrow> p | None \<Rightarrow> []) props)
             (task_overrides (overlays st)) \<rparr> \<rparr>"

text \<open>\<^verbatim>\<open>xs.slice(-n)\<close>: the last \<open>n\<close> elements, all of them when there are fewer.\<close>

definition slice_last :: "nat \<Rightarrow> 'a list \<Rightarrow> 'a list" where
  "slice_last n xs = drop (length xs - n) xs"

text \<open>\<^verbatim>\<open>logComplete(id, completed)\<close>\<close>

definition logComplete :: "world \<Rightarrow> json \<Rightarrow> bool \<Rightarrow> app_state \<Rightarrow> app_state" where
  "logComplete w ident completed st =
     (let now = now_at w (reads st);
          ov = overlays st;
          l = learning ov;
          pushed = completion_log l @ [JObj [(''id'', ident), (''completed'', JBool completed), (''at'', JStr now)]]
      in st\<lparr> reads := Suc (reads st),
             overlays := ov\<lparr> learning := l
               \<lparr> stats := (stats l)\<lparr> completes := completes (stats l) + 1 \<rparr>,
                 completion_log := slice_last 400 pushed \<rparr> \<rparr> \<rparr>)"

text \<open>The branch for \<^verbatim>\<open>add\<close> of the loop of \<^verbatim>\<open>applyOpsArray\<close>.\<close>

definition op_add :: "world \<Rightarrow> json \<Rightarrow> app_state \<Rightarrow> app_state \<times> (error + unit)" where
  "op_add w op st =
     (let oid = get_prop op ''id'';
          generated = (JStr (''temp_'' @ fresh_at w (reads st)), st\<lparr> reads := Suc (reads st) \<rparr>);
          chosen =
            (if truthy oid then
               (case oid of
                  JStr s \<Rightarrow> Inr (if startsWith s ''temp_'' then (oid, st) else generated)
                | _ \<Rightarrow> Inl TypeError)
             else Inr generated)
      in case chosen of
           Inl e \<Rightarrow> (st, Inl e)
         | Inr (ident, st1) \<Rightarrow>
             (let fields = or_else (get_prop op ''fields'') (JObj []) in
              case to_str (or_else (get_prop fields ''title'') (JStr ''Untitled'')) of
                None \<Rightarrow> (st1, Inl TypeError)
              | Some title \<Rightarrow>
                  (case normalizeType (get_prop fields ''type'') of
                     Inl e \<Rightarrow> (st1, Inl e)
                   | Inr ty \<Rightarrow>
                       (case to_str (or_else (get_prop fields ''notes'') (JStr [])) of
                          None \<Rightarrow> (st1, Inl TypeError)
                        | Some notes \<Rightarrow>
                            (st1\<lparr> overlays := (overlays st1)
                               \<lparr> new_tasks := new_tasks (overlays st1) @
                                   [JObj [(''id'', ident),
                                          (''title'', JStr title),
                                          (''type'', or_else (JStr ty) (JStr ''task'')),
                                          (''pillar'', coalesce (get_prop fields ''pillar'') JNull),
                                          (''owner_id'', coalesce (get_prop fields ''owner_id'') JNull),
                                          (''start_date'', coalesce (get_prop fields ''start_date'') JNull),
                                          (''due_date'', coalesce (get_prop fields ''due_date'') JNull),
                                          (''priority'', coalesce (get_prop fields ''priority'') (JNum 2)),
                                          (''notes'', JStr notes),
                                          (''subtasks'',
                                             if isArray (get_prop fields ''subtasks'')
                                             then get_prop fields ''subtasks'' else JUndef),
                                          (''estimated_minutes'',
                                             coalesce (get_prop fields ''estimated_minutes'') JUndef),
                                          (''energy'', coalesce (get_prop fields ''energy'') JUndef)]] \<rparr> \<rparr>,
                             Inr ())))))"

text \<open>\<^verbatim>\<open>Object.assign(ensurePatch(o.id), o.fields || {})\<close>\<close>

definition op_update :: "json \<Rightarrow> app_state \<Rightarrow> app_state \<times> (error + unit)" where
  "op_update op st =
     (case ensurePatch (get_prop op ''id'') st of
        Inl e \<Rightarrow> (st, Inl e)
      | Inr (k, st1) \<Rightarrow>
          (write_patch k (own_props (or_else (get_prop op ''fields'') (JObj []))) st1, Inr ()))"

text \<open>
  The branches for \<^verbatim>\<open>complete\<close> (\<open>done = True\<close>) and \<^verbatim>\<open>undo_complete\<close>: the first reads
  the clock for \<open>completed_at\<close>, both read it in \<^verbatim>\<open>logComplete\<close>.
\<close>

definition op_complete :: "world \<Rightarrow> bool \<Rightarrow> json \<Rightarrow> app_state \<Rightarrow> app_state \<times> (error + unit)" where
  "op_complete w done op st =
     (case ensurePatch (get_prop op ''id'') st of
        Inl e \<Rightarrow> (st, Inl e)
      | Inr (k, st1) \<Rightarrow>
          (let st2 =
                 (if done then
                    (write_patch k [(''status'', JStr ''completed''),
                                    (''completed_at'', JStr (now_at w (reads st1)))] st1)
                      \<lparr> reads := Suc (reads st1) \<rparr>
                  else write_patch k [(''status'', JStr ''open''), (''completed_at'', JNull)] st1)
           in (logComplete w (get_prop op ''id'') done st2, Inr ())))"

text \<open>
  \<^verbatim>\<open>new_tasks.filter((t) => t.id !== id)\<close>: reading the id of a \<^verbatim>\<open>null\<close> element
  throws. \<^verbatim>\<open>!==\<close> compares as SameValueZero does on these values.
\<close>

fun without_id :: "json \<Rightarrow> json list \<Rightarrow> error + json list" where
  "without_id ident [] = Inr []"
| "without_id ident (t # ts) =
     (if nullish t then Inl TypeError
      else case without_id ident ts of
        Inl e \<Rightarrow> Inl e
      | Inr r \<Rightarrow> Inr (if same_value_zero (get_prop t ''id'') ident then r else t # r))"

definition op_delete :: "json \<Rightarrow> app_state \<Rightarrow> app_state \<times> (error + unit)" where
  "op_delete op st =
     (let ident = get_prop op ''id'';
          ov = overlays st;
          st1 = (if has_value (deletions ov) ident then st
                 else st\<lparr> overlays := ov\<lparr> deletions := deletions ov @ [ident] \<rparr> \<rparr>)
      in case to_str ident of
           None \<Rightarrow> (st1, Inl TypeError)
         | Some k \<Rightarrow>
             (let st2 = st1\<lparr> overlays := (overlays st1)
                          \<lparr> task_overrides := AList.delete k (task_overrides (overlays st1)) \<rparr> \<rparr>
              in case without_id ident (new_tasks (overlays st2)) of
                   Inl e \<Rightarrow> (st2, Inl e)
                 | Inr ts \<Rightarrow> (st2\<lparr> overlays := (overlays st2)\<lparr> new_tasks := ts \<rparr> \<rparr>, Inr ())))"

text \<open>
  One turn of the loop: the five tests on \<^verbatim>\<open>o.op\<close> exclude one another, and an
  operation of no known kind changes nothing.
\<close>

definition apply_op :: "world \<Rightarrow> json \<Rightarrow> app_state \<Rightarrow> app_state \<times> (error + unit)" where
  "apply_op w op st =
     (if nullish op then (st, Inl TypeError)
      else if get_prop op ''op'' = JStr ''add'' then op_add w op st
      else if get_prop op ''op'' = JStr ''update'' then op_update op st
      else if get_prop op ''op'' = JStr ''complete'' then op_complete w True op st
      else if get_prop op ''op'' = JStr ''undo_complete'' then op_complete w False op st
      else if get_prop op ''op'' = JStr ''delete'' then op_delete op st
      else (st, Inr ()))"

fun apply_ops_loop :: "world \<Rightarrow> json list \<Rightarrow> app_state \<Rightarrow> app_state \<times> (error + unit)" where
  "apply_ops_loop w [] st = (st, Inr ())"
| "apply_ops_loop w (op # ops) st =
     (case apply_op w op st of
        (st1, Inl e) \<Rightarrow> (st1, Inl e)
      | (st1, Inr u) \<Rightarrow> apply_ops_loop w ops st1)"

definition applyOpsArray :: "world \<Rightarrow> json \<Rightarrow> app_state \<Rightarrow> app_state \<times> (error + int)" where
  "applyOpsArray w ops st =
     (case ops of
        JArr os \<Rightarrow>
          if os = [] then (st, Inr 0)
          else
            (case apply_ops_loop w os st of
               (st1, Inl e) \<Rightarrow> (st1, Inl e)
             | (st1, Inr u) \<Rightarrow>
                 (let st2 = saveOverlays w st1 in
                  case mergeData (base st2) (overlays st2) of
                    Inl e \<Rightarrow> (st2, Inl e)
                  | Inr m \<Rightarrow> (st2\<lparr> merged := Some m \<rparr>, Inr (int (length os)))))
      | _ \<Rightarrow> (st, Inr 0))"

text \<open>\<^verbatim>\<open>xs.find((x) => x.id === id)\<close> for a string \<open>id\<close>; \<^verbatim>\<open>undefined\<close> when none matches.\<close>

fun find_by_id :: "string \<Rightarrow> json list \<Rightarrow> error + json" where
  "find_by_id ident [] = Inr JUndef"
| "find_by_id ident (x # xs) =
     (if nullish x then Inl TypeError
      else if get_prop x ''id'' = JStr ident then Inr x
      else find_by_id ident xs)"

text \<open>
  \<^verbatim>\<open>aiRefineTaskById\<close>, with the awaited service call given as \<open>response\<close>. Building the
  context for the service reads the state and changes nothing; it is left out. Inside
  the \<^verbatim>\<open>try\<close>, an error ends the function with a notification and the state as it is.
\<close>

definition aiRefineTaskById ::
  "world \<Rightarrow> bool \<Rightarrow> (string \<Rightarrow> json option) \<Rightarrow> error + string \<Rightarrow> string \<Rightarrow> app_state
     \<Rightarrow> app_state \<times> (error + unit)" where
  "aiRefineTaskById w enabled parse response ident st =
     (if \<not> enabled then (st, Inr ())
      else
        case find_by_id ident (case merged st of None \<Rightarrow> [] | Some m \<Rightarrow> tasks m) of
          Inl e \<Rightarrow> (st, Inl e)
        | Inr t1 \<Rightarrow>
            (case (if truthy t1 then Inr t1 else find_by_id ident (new_tasks (overlays st))) of
               Inl e \<Rightarrow> (st, Inl e)
             | Inr t \<Rightarrow>
                 if \<not> truthy t then (st, Inr ())
                 else
                   (case runOps enabled parse response of
                      Inl e \<Rightarrow> (st, Inr ())
                    | Inr payload \<Rightarrow>
                        if \<not> truthy payload \<or> \<not> isArray (get_prop payload ''ops'') then (st, Inr ())
                        else
                          (let autoOps = fst (splitAiOpsForAutoApply payload);
                               reviewOps = snd (splitAiOpsForAutoApply payload);
                               st1 = (if autoOps \<noteq> [] then fst (applyOpsArray w (JArr autoOps) st) else st);
                               thrown = (autoOps \<noteq> [] \<and> isl (snd (applyOpsArray w (JArr autoOps) st)))
                           in if thrown then (st1, Inr ())
                              else if reviewOps \<noteq> [] then (st1\<lparr> pending_ops := Some reviewOps \<rparr>, Inr ())
                              else (st1\<lparr> pending_ops := None \<rparr>, Inr ())))))"

text \<open>
  \<^verbatim>\<open>aiRebalanceToday\<close>, likewise: a payload that passes is shown for review, never
  applied here.
\<close>

definition aiRebalanceToday ::
  "bool \<Rightarrow> (string \<Rightarrow> json option) \<Rightarrow> error + string \<Rightarrow> app_state \<Rightarrow> app_state" where
  "aiRebalanceToday enabled parse response st =
     (if \<not> enabled then st
      else case runOps enabled parse response of
        Inl e \<Rightarrow> st
      | Inr payload \<Rightarrow>
          if \<not> truthy payload \<or> \<not> isArray (get_prop payload ''ops'') then st
          else st\<lparr> pending_ops := Some (array_or_empty (get_prop payload ''ops'')) \<rparr>)"

section \<open>A model of the JSON reader\<close>

text \<open>
  \<^verbatim>\<open>JSON.parse\<close> belongs to the platform. The functions of the program that call it take
  it as a parameter. To run them on concrete texts, this section models the reader on the
  part of the grammar the examples use: objects, arrays, strings with the simple escapes,
  integers, \<^verbatim>\<open>true\<close>, \<^verbatim>\<open>false\<close> and \<^verbatim>\<open>null\<close>. A text outside that part (a fraction, an
  exponent, a \<^verbatim>\<open>\u\<close> escape) gives \<open>Unmodelled\<close>, never a value of its own making. The
  recursion runs on fuel; \<open>OutOfFuel\<close> is a result of its own, so that a rejection is
  never an exhausted budget.
\<close>

datatype 'a presult = Done 'a | Reject | Unmodelled | OutOfFuel

fun pbind :: "'a presult \<Rightarrow> ('a \<Rightarrow> 'b presult) \<Rightarrow> 'b presult" where
  "pbind (Done x) f = f x"
| "pbind Reject f = Reject"
| "pbind Unmodelled f = Unmodelled"
| "pbind OutOfFuel f = OutOfFuel"

definition json_space :: "char \<Rightarrow> bool" where
  "json_space c = (c \<in> set [CHR '' '', CHR 0x09, CHR 0x0A, CHR 0x0D])"

definition skip_ws :: "string \<Rightarrow> string" where
  "skip_ws s = dropWhile json_space s"

definition digit_val :: "char \<Rightarrow> nat option" where
  "digit_val c = map_of (zip ''0123456789'' [0, 1, 2, 3, 4, 5, 6, 7, 8, 9]) c"

definition escape_char :: "char \<Rightarrow> char option" where
  "escape_char c =
     map_of [(CHR 0x22, CHR 0x22), (CHR 0x5C, CHR 0x5C), (CHR ''/'', CHR ''/''),
             (CHR ''b'', CHR 0x08), (CHR ''f'', CHR 0x0C), (CHR ''n'', CHR 0x0A),
             (CHR ''r'', CHR 0x0D), (CHR ''t'', CHR 0x09)] c"

text \<open>The characters of a string after its opening quote, and the text after its closing quote.\<close>

fun string_body :: "string \<Rightarrow> (string \<times> string) presult" where
  "string_body [] = Reject"
| "string_body (c # cs) =
     (if c = CHR 0x22 then Done ([], cs)
      else if c = CHR 0x5C then
        (case cs of
           [] \<Rightarrow> Reject
         | e # cs' \<Rightarrow>
             (case escape_char e of
                None \<Rightarrow> if e = CHR ''u'' then Unmodelled else Reject
              | Some ch \<Rightarrow> pbind (string_body cs') (\<lambda>(s, r). Done (ch # s, r))))
      else if (of_char c :: nat) < 32 then Reject
      else pbind (string_body cs) (\<lambda>(s, r). Done (c # s, r)))"

text \<open>A number: an optional minus, then \<^verbatim>\<open>0\<close> or digits that do not start with \<^verbatim>\<open>0\<close>.\<close>

definition number_token :: "string \<Rightarrow> (json \<times> string) presult" where
  "number_token s =
     (let neg = (s \<noteq> [] \<and> hd s = CHR ''-'');
          t = (if neg then tl s else s);
          ds = takeWhile (\<lambda>c. digit_val c \<noteq> None) t;
          r = dropWhile (\<lambda>c. digit_val c \<noteq> None) t;
          n = foldl (\<lambda>acc c. 10 * acc + int (case digit_val c of Some d \<Rightarrow> d | None \<Rightarrow> 0)) 0 ds
      in if ds = [] then Reject
         else if 1 < length ds \<and> hd ds = CHR ''0'' then Reject
         else if r \<noteq> [] \<and> hd r \<in> set ''.eE'' then Unmodelled
         else Done (JNum (if neg then - n else n), r))"

fun parse_value :: "nat \<Rightarrow> string \<Rightarrow> (json \<times> string) presult"
  and parse_members :: "nat \<Rightarrow> obj \<Rightarrow> string \<Rightarrow> (obj \<times> string) presult"
  and parse_elements :: "nat \<Rightarrow> json list \<Rightarrow> string \<Rightarrow> (json list \<times> string) presult" where
  "parse_value 0 s = OutOfFuel"
| "parse_value (Suc n) s =
     (case skip_ws s of
        [] \<Rightarrow> Reject
      | c # cs \<Rightarrow>
          if c = CHR ''{'' then
            (case skip_ws cs of
               [] \<Rightarrow> Reject
             | d # ds \<Rightarrow>
                 if d = CHR ''}'' then Done (JObj [], ds)
                 else pbind (parse_members n [] cs) (\<lambda>(kvs, r). Done (JObj kvs, r)))
          else if c = CHR ''['' then
            (case skip_ws cs of
               [] \<Rightarrow> Reject
             | d # ds \<Rightarrow>
                 if d = CHR '']'' then Done (JArr [], ds)
                 else pbind (parse_elements n [] cs) (\<lambda>(xs, r). Done (JArr xs, r)))
          else if c = CHR 0x22 then pbind (string_body cs) (\<lambda>(str, r). Done (JStr str, r))
          else if take 4 (c # cs) = ''true'' then Done (JBool True, drop 4 (c # cs))
          else if take 5 (c # cs) = ''false'' then Done (JBool False, drop 5 (c # cs))
          else if take 4 (c # cs) = ''null'' then Done (JNull, drop 4 (c # cs))
          else number_token (c # cs))"
| "parse_members 0 acc s = OutOfFuel"
| "parse_members (Suc n) acc s =
     (case skip_ws s of
        [] \<Rightarrow> Reject
      | c # cs \<Rightarrow>
          if c \<noteq> CHR 0x22 then Reject
          else
            pbind (string_body cs) (\<lambda>(k, r).
              case skip_ws r of
                [] \<Rightarrow> Reject
              | d # r2 \<Rightarrow>
                  if d \<noteq> CHR '':'' then Reject
                  else
                    pbind (parse_value n r2) (\<lambda>(v, r3).
                      case skip_ws r3 of
                        [] \<Rightarrow> Reject
                      | e # r4 \<Rightarrow>
                          if e = CHR '','' then parse_members n (AList.update k v acc) r4
                          else if e = CHR ''}'' then Done (AList.update k v acc, r4)
                          else Reject)))"
| "parse_elements 0 acc s = OutOfFuel"
| "parse_elements (Suc n) acc s =
     pbind (parse_value n s) (\<lambda>(v, r).
       case skip_ws r of
         [] \<Rightarrow> Reject
       | e # r2 \<Rightarrow>
           if e = CHR '','' then parse_elements n (acc @ [v]) r2
           else if e = CHR '']'' then Done (acc @ [v], r2)
           else Reject)"

definition json_parse_result :: "string \<Rightarrow> json presult" where
  "json_parse_result s =
     pbind (parse_value (2 * length s + 2) s) (\<lambda>(v, r). if skip_ws r = [] then Done v else Reject)"

text \<open>\<open>None\<close> stands for the \<^verbatim>\<open>SyntaxError\<close> that \<^verbatim>\<open>JSON.parse\<close> throws.\<close>

definition json_parse :: "string \<Rightarrow> json option" where
  "json_parse s = (case json_parse_result s of Done v \<Rightarrow> Some v | _ \<Rightarrow> None)"

section \<open>Concrete states and texts\<close>

text \<open>A clock and a source of ids, and a state with one base task and an empty overlay.\<close>

definition world0 :: world where
  "world0 =
     \<lparr> now_at = (\<lambda>n. ''2024-05-01T10:00:0'' @ dec_nat n @ ''.000Z''),
       fresh_at = (\<lambda>n. ''lx'' @ dec_nat n @ ''_ab12''),
       today_at = (\<lambda>n. (2024, 5, 1)) \<rparr>"

definition state0 :: app_state where
  "state0 =
     \<lparr> base = JObj [(''tasks'', JArr [JObj [(''id'', JStr ''t1''), (''title'', JStr ''Draft report'')]])],
       overlays = defaultOverlays ''2024-05-01T09:00:00.000Z'',
       merged = Some \<lparr> base_props = [(''tasks'', JArr [JObj [(''id'', JStr ''t1''), (''title'', JStr ''Draft report'')]])],
                       tasks = [JObj [(''id'', JStr ''t1''), (''title'', JStr ''Draft report'')]],
                       events = [],
                       recurrence_rules = [],
                       overlays_ref = defaultOverlays ''2024-05-01T09:00:00.000Z'' \<rparr>,
       pending_ops = None,
       stored = None,
       reads = 0 \<rparr>"

text \<open>
  A response whose payload has a well-formed update, then an operation of an unknown
  kind, then a deletion without an id; and the payload the text holds.
\<close>

definition bad_text :: string where
  \<open>bad_text = ''Here you go: {"summary":"s","ops":[{"op":"update","id":"t1","fields":{"title":"X"}},{"op":"rename","id":"t2"},{"op":"delete"}]} Done.''\<close>

definition bad_payload :: json where
  "bad_payload =
     JObj [(''summary'', JStr ''s''),
           (''ops'', JArr [JObj [(''op'', JStr ''update''), (''id'', JStr ''t1''),
                                 (''fields'', JObj [(''title'', JStr ''X'')])],
                           JObj [(''op'', JStr ''rename''), (''id'', JStr ''t2'')],
                           JObj [(''op'', JStr ''delete'')]])]"

section \<open>Completion operations\<close>

text \<open>
  An operation that completes or reopens an item whose id has a string form, and the
  entries the loop logs for a list of such operations, starting at the \<open>n\<close>-th read of
  the clock: a completion reads the clock once for the patch and once for the entry, a
  reopening once for the entry.
\<close>

definition is_completion_op :: "json \<Rightarrow> bool" where
  "is_completion_op op =
     (\<not> nullish op
      \<and> (get_prop op ''op'' = JStr ''complete'' \<or> get_prop op ''op'' = JStr ''undo_complete'')
      \<and> to_str (get_prop op ''id'') \<noteq> None)"

fun logged_entries :: "world \<Rightarrow> nat \<Rightarrow> json list \<Rightarrow> json list" where
  "logged_entries w n [] = []"
| "logged_entries w n (op # ops) =
     (if get_prop op ''op'' = JStr ''complete''
      then JObj [(''id'', get_prop op ''id''), (''completed'', JBool True), (''at'', JStr (now_at w (Suc n)))]
             # logged_entries w (Suc (Suc n)) ops
      else JObj [(''id'', get_prop op ''id''), (''completed'', JBool False), (''at'', JStr (now_at w n))]
             # logged_entries w (Suc n) ops)"

text \<open>Five hundred completions, of items \<open>0\<close> to \<open>499\<close>.\<close>

definition completions500 :: "json list" where
  "completions500 = map (\<lambda>i. JObj [(''op'', JStr ''complete''), (''id'', JStr (dec_nat i))]) [0..<500]"

text \<open>An add whose type is not one of the three kinds.\<close>

definition add_banana :: json where
  "add_banana =
     JObj [(''op'', JStr ''add''), (''id'', JStr ''temp_1''),
           (''fields'', JObj [(''title'', JStr ''Buy fruit''), (''type'', JStr ''Banana'')])]"

section \<open>Balanced objects\<close>

text \<open>
  The first balanced object of a text, in the words of the contract: from the first
  opening brace up to the closing brace that brings the count of open braces back to
  zero. \<open>close_at depth s\<close> is the length of the prefix of \<open>s\<close> that closes \<open>depth\<close> open
  braces.
\<close>

fun close_at :: "nat \<Rightarrow> string \<Rightarrow> nat option" where
  "close_at depth [] = None"
| "close_at depth (c # cs) =
     (if c = CHR ''{'' then map_option Suc (close_at (Suc depth) cs)
      else if c = CHR ''}'' then
        (case depth of
           0 \<Rightarrow> None
         | Suc 0 \<Rightarrow> Some 1
         | Suc (Suc d) \<Rightarrow> map_option Suc (close_at (Suc d) cs))
      else map_option Suc (close_at depth cs))"

definition first_balanced :: "string \<Rightarrow> string option" where
  "first_balanced txt =
     (let s = dropWhile (\<lambda>c. c \<noteq> CHR ''{'') txt
      in map_option (\<lambda>n. take n s) (close_at 0 s))"

text \<open>A response that holds two objects, and one that wraps a single object in prose.\<close>

definition two_objects :: string where
  \<open>two_objects = ''First {"summary":"a","ops":[]} then {"summary":"b","ops":[]}''\<close>

definition one_object :: string where
  \<open>one_object = ''Sure! {"summary":"a","ops":[{"op":"delete","id":"t1"}]} Anything else?''\<close>

section \<open>Calendar dates\<close>

text \<open>
  The program builds every \<^verbatim>\<open>Date\<close> at local noon and reads only its year, month and
  day, so a date is modelled as that triple, in the Gregorian calendar.
\<close>

type_synonym date = "nat \<times> nat \<times> nat"

definition is_leap :: "nat \<Rightarrow> bool" where
  "is_leap y = (y mod 4 = 0 \<and> (y mod 100 \<noteq> 0 \<or> y mod 400 = 0))"

definition days_in_month :: "nat \<Rightarrow> nat \<Rightarrow> nat" where
  "days_in_month y m =
     (if m = 2 then (if is_leap y then 29 else 28)
      else if m = 4 \<or> m = 6 \<or> m = 9 \<or> m = 11 then 30
      else 31)"

text \<open>\<^verbatim>\<open>d.setDate(d.getDate() + 1)\<close>: the next calendar day.\<close>

fun next_day :: "date \<Rightarrow> date" where
  "next_day (y, m, d) =
     (if d < days_in_month y m then (y, m, Suc d)
      else if m < 12 then (y, Suc m, 1)
      else (Suc y, 1, 1))"

text \<open>
  \<^verbatim>\<open>new Date(y, m - 1, d, 12, 0, 0, 0)\<close> for positive \<open>y\<close>, \<open>m\<close>, \<open>d\<close>: a year below 100
  counts from 1900, months past December carry into the year, days past the end of the
  month carry into the following months.
\<close>

fun add_days :: "nat \<Rightarrow> date \<Rightarrow> date" where
  "add_days 0 dt = dt"
| "add_days (Suc n) dt = add_days n (next_day dt)"

definition mk_date :: "nat \<Rightarrow> nat \<Rightarrow> nat \<Rightarrow> date" where
  "mk_date y m d =
     (let yr = (if y \<le> 99 then 1900 + y else y)
      in add_days (d - 1) (yr + (m - 1) div 12, (m - 1) mod 12 + 1, 1))"

text \<open>\<^verbatim>\<open>s.split("-")\<close>\<close>

fun split_dash :: "string \<Rightarrow> string list" where
  "split_dash [] = [[]]"
| "split_dash (c # cs) =
     (if c = CHR ''-'' then [] # split_dash cs
      else case split_dash cs of
        p # ps \<Rightarrow> (c # p) # ps
      | [] \<Rightarrow> [[c]])"

text \<open>
  \<^verbatim>\<open>Number(s)\<close> on the strings the model covers: blank gives 0, up to five decimal
  digits give their value. Any other string is a number in some cases (\<^verbatim>\<open>"1e3"\<close>,
  \<^verbatim>\<open>"0x10"\<close>) and \<^verbatim>\<open>NaN\<close> in others, and longer numbers lead to dates beyond the range
  of \<^verbatim>\<open>Date\<close>; the model does not follow them.
\<close>

definition js_Number :: "string \<Rightarrow> nat presult" where
  "js_Number s =
     (let t = trim s in
      if t = [] then Done 0
      else if list_all (\<lambda>c. digit_val c \<noteq> None) t \<and> length t \<le> 5
        then Done (foldl (\<lambda>acc c. 10 * acc + (case digit_val c of Some d \<Rightarrow> d | None \<Rightarrow> 0)) 0 t)
      else Unmodelled)"

text \<open>
  \<^verbatim>\<open>parseISODate\<close>. The three parts are tested in turn (\<^verbatim>\<open>!y || !m || !d\<close>); a part
  that is missing is \<^verbatim>\<open>undefined\<close>.
\<close>

definition parseISODate :: "json \<Rightarrow> date option presult" where
  "parseISODate v =
     (case v of
        JStr s \<Rightarrow>
          if s = [] then Done None
          else
            (let parts = split_dash s in
             pbind (js_Number (parts ! 0)) (\<lambda>y.
               if y = 0 then Done None
               else if length parts < 2 then Done None
               else pbind (js_Number (parts ! 1)) (\<lambda>m.
                 if m = 0 then Done None
                 else if length parts < 3 then Done None
                 else pbind (js_Number (parts ! 2)) (\<lambda>d.
                   if d = 0 then Done None
                   else Done (Some (mk_date y m d))))))
      | _ \<Rightarrow> Done None)"

text \<open>\<^verbatim>\<open>String(n).padStart(2, "0")\<close>, \<^verbatim>\<open>isoFromDate\<close> and \<^verbatim>\<open>todayLocalISO\<close>.\<close>

definition pad2 :: "nat \<Rightarrow> string" where
  "pad2 n = (if n < 10 then CHR ''0'' # dec_nat n else dec_nat n)"

fun isoFromDate :: "date \<Rightarrow> string" where
  "isoFromDate (y, m, d) = dec_nat y @ ''-'' @ pad2 m @ ''-'' @ pad2 d"

definition todayLocalISO :: "world \<Rightarrow> nat \<Rightarrow> string" where
  "todayLocalISO w n = isoFromDate (today_at w n)"

section \<open>Moving an item\<close>

text \<open>\<^verbatim>\<open>logMove(id, from, to, reason)\<close>\<close>

definition logMove :: "world \<Rightarrow> json \<Rightarrow> json \<Rightarrow> json \<Rightarrow> string \<Rightarrow> app_state \<Rightarrow> app_state" where
  "logMove w ident from to reason st =
     (let now = now_at w (reads st);
          ov = overlays st;
          l = learning ov;
          pushed = move_log l @
            [JObj [(''id'', ident), (''from'', from), (''to'', to), (''reason'', JStr reason),
                   (''at'', JStr now)]]
      in st\<lparr> reads := Suc (reads st),
             overlays := ov\<lparr> learning := l
               \<lparr> stats := (stats l)\<lparr> moves := moves (stats l) + 1 \<rparr>,
                 move_log := slice_last 400 pushed \<rparr> \<rparr> \<rparr>)"

text \<open>The patch stored under a key, as a value (\<^verbatim>\<open>overrides[k]\<close>).\<close>

definition patch_at :: "string \<Rightarrow> app_state \<Rightarrow> json" where
  "patch_at k st = (case map_of (task_overrides (overlays st)) k of Some p \<Rightarrow> JObj p | None \<Rightarrow> JUndef)"

text \<open>
  The date string \<^verbatim>\<open>deferOneDay\<close> starts from:
  \<^verbatim>\<open>patch.due_date || item.due_date || patch.start_date || item.start_date\<close>.
\<close>

definition current_date_field :: "json \<Rightarrow> json \<Rightarrow> json" where
  "current_date_field patch item =
     or_else (get_prop patch ''due_date'')
       (or_else (get_prop item ''due_date'')
          (or_else (get_prop patch ''start_date'') (get_prop item ''start_date'')))"

text \<open>
  \<^verbatim>\<open>deferOneDay(id)\<close>. Only the tasks of the merged view are searched. The result is
  \<open>Unmodelled\<close> when a date string is outside the model of \<^verbatim>\<open>Number\<close>.
\<close>

definition deferOneDay :: "world \<Rightarrow> string \<Rightarrow> app_state \<Rightarrow> (app_state \<times> (error + unit)) presult" where
  "deferOneDay w ident st =
     (case find_by_id ident (case merged st of None \<Rightarrow> [] | Some m \<Rightarrow> tasks m) of
        Inl e \<Rightarrow> Done (st, Inl e)
      | Inr item \<Rightarrow>
          if \<not> truthy item then Done (st, Inr ())
          else
            (case ensurePatch (JStr ident) st of
               Inl e \<Rightarrow> Done (st, Inl e)
             | Inr (k, st1) \<Rightarrow>
                 pbind (parseISODate (current_date_field (patch_at k st1) item)) (\<lambda>current.
                   pbind (case current of
                            Some dt \<Rightarrow> Done (Some dt, st1)
                          | None \<Rightarrow>
                              pbind (parseISODate (JStr (todayLocalISO w (reads st1))))
                                (\<lambda>t. Done (t, st1\<lparr> reads := Suc (reads st1) \<rparr>)))
                     (\<lambda>(start, st2).
                        case start of
                          None \<Rightarrow> Done (st2, Inl TypeError)
                        | Some dt \<Rightarrow>
                            (let prior =
                                   JObj [(''start_date'',
                                            coalesce (get_prop (patch_at k st2) ''start_date'')
                                              (coalesce (get_prop item ''start_date'') JNull)),
                                         (''due_date'',
                                            coalesce (get_prop (patch_at k st2) ''due_date'')
                                              (coalesce (get_prop item ''due_date'') JNull))];
                                 nextISO = isoFromDate (next_day dt);
                                 st3 = write_patch k [(''due_date'', JStr nextISO)] st2;
                                 st4 = (if \<not> truthy (get_prop (patch_at k st3) ''start_date'')
                                        then write_patch k [(''start_date'', JStr nextISO)] st3 else st3);
                                 st5 = logMove w (JStr ident) prior
                                         (JObj [(''start_date'', get_prop (patch_at k st4) ''start_date''),
                                                (''due_date'', get_prop (patch_at k st4) ''due_date'')])
                                         ''defer_1d'' st4;
                                 st6 = saveOverlays w st5
                             in case mergeData (base st6) (overlays st6) of
                                  Inl e \<Rightarrow> Done (st6, Inl e)
                                | Inr m \<Rightarrow> Done (st6\<lparr> merged := Some m \<rparr>, Inr ()))))))"

text \<open>A field of the patch stored under a key, and the state a modelled run leaves behind.\<close>

definition patched_field :: "string \<Rightarrow> string \<Rightarrow> app_state \<Rightarrow> json" where
  "patched_field k f st = get_prop (patch_at k st) f"

definition valid_date :: "date \<Rightarrow> bool" where
  "valid_date dt =
     (case dt of (y, m, d) \<Rightarrow>
        1000 \<le> y \<and> y \<le> 9999 \<and> 1 \<le> m \<and> m \<le> 12 \<and> 1 \<le> d \<and> d \<le> days_in_month y m)"

definition outcome_state :: "(app_state \<times> (error + unit)) presult \<Rightarrow> app_state option" where
  "outcome_state r = (case r of Done (st, res) \<Rightarrow> Some st | _ \<Rightarrow> None)"

text \<open>
  A state whose only task is due on 28 February 2024 and starts on the 20th, and one whose
  only task starts (10 March) after it is due (1 March); both with an empty overlay.
\<close>

definition defer_state :: app_state where
  "defer_state =
     \<lparr> base = JObj [(''tasks'', JArr [JObj [(''id'', JStr ''t1''), (''due_date'', JStr ''2024-02-28''),
                                            (''start_date'', JStr ''2024-02-20'')]])],
       overlays = defaultOverlays ''2024-05-01T09:00:00.000Z'',
       merged = Some \<lparr> base_props = [(''tasks'', JArr [JObj [(''id'', JStr ''t1''), (''due_date'', JStr ''2024-02-28''),
                                            (''start_date'', JStr ''2024-02-20'')]])],
                       tasks = [JObj [(''id'', JStr ''t1''), (''due_date'', JStr ''2024-02-28''),
                                      (''start_date'', JStr ''2024-02-20'')]],
                       events = [],
                       recurrence_rules = [],
                       overlays_ref = defaultOverlays ''2024-05-01T09:00:00.000Z'' \<rparr>,
       pending_ops = None,
       stored = None,
       reads = 0 \<rparr>"

definition late_start_state :: app_state where
  "late_start_state =
     \<lparr> base = JObj [(''tasks'', JArr [JObj [(''id'', JStr ''t1''), (''due_date'', JStr ''2024-03-01''),
                                            (''start_date'', JStr ''2024-03-10'')]])],
       overlays = defaultOverlays ''2024-05-01T09:00:00.000Z'',
       merged = Some \<lparr> base_props = [(''tasks'', JArr [JObj [(''id'', JStr ''t1''), (''due_date'', JStr ''2024-03-01''),
                                            (''start_date'', JStr ''2024-03-10'')]])],
                       tasks = [JObj [(''id'', JStr ''t1''), (''due_date'', JStr ''2024-03-01''),
                                      (''start_date'', JStr ''2024-03-10'')]],
                       events = [],
                       recurrence_rules = [],
                       overlays_ref = defaultOverlays ''2024-05-01T09:00:00.000Z'' \<rparr>,
       pending_ops = None,
       stored = None,
       reads = 0 \<rparr>"

section \<open>Loading the overlay\<close>

text \<open>The overlay as the JSON object that is written to and read from storage.\<close>

definition learning_json :: "learning \<Rightarrow> json" where
  "learning_json l =
     JObj [(''completion_log'', JArr (completion_log l)),
           (''move_log'', JArr (move_log l)),
           (''stats'', JObj [(''moves'', JNum (moves (stats l))),
                            (''completes'', JNum (completes (stats l)))])]"

definition overlays_json :: "overlays \<Rightarrow> json" where
  "overlays_json ov =
     JObj [(''version'', version ov),
           (''updated_at'', updated_at ov),
           (''deletions'', JArr (deletions ov)),
           (''task_overrides'', JObj (map (\<lambda>(k, p). (k, JObj p)) (task_overrides ov))),
           (''new_tasks'', JArr (new_tasks ov)),
           (''recurrence_overrides'', JObj (recurrence_overrides ov)),
           (''learning'', learning_json (learning ov))]"

text \<open>
  The object literal \<^verbatim>\<open>loadOverlays\<close> returns for a parsed value \<open>obj\<close> that is not
  \<^verbatim>\<open>null\<close>: the defaults, then the properties of the parsed value, then the five fields
  that are tested one by one.
\<close>

definition normalized :: "json \<Rightarrow> json \<Rightarrow> json" where
  "normalized defaults obj =
     JObj (assign_props (own_props defaults)
       (own_props obj @
        [(''deletions'',
            if isArray (get_prop obj ''deletions'') then get_prop obj ''deletions'' else JArr []),
         (''new_tasks'',
            if isArray (get_prop obj ''new_tasks'') then get_prop obj ''new_tasks'' else JArr []),
         (''task_overrides'',
            if truthy (get_prop obj ''task_overrides'') \<and> typeof_object (get_prop obj ''task_overrides'')
            then get_prop obj ''task_overrides'' else JObj []),
         (''recurrence_overrides'',
            if truthy (get_prop obj ''recurrence_overrides'')
               \<and> typeof_object (get_prop obj ''recurrence_overrides'')
            then get_prop obj ''recurrence_overrides'' else JObj []),
         (''learning'',
            if truthy (get_prop obj ''learning'') \<and> typeof_object (get_prop obj ''learning'')
            then spread2 (get_prop defaults ''learning'') (get_prop obj ''learning'')
            else get_prop defaults ''learning'')]))"

text \<open>
  \<^verbatim>\<open>loadOverlays\<close>. \<open>raw\<close> is what storage holds under the key (\<open>None\<close> for \<^verbatim>\<open>null\<close>),
  \<open>parse\<close> stands for \<^verbatim>\<open>JSON.parse\<close>, \<open>now\<close> for the clock. Whatever throws inside the
  \<^verbatim>\<open>try\<close> (the parse, or reading a property of a parsed \<^verbatim>\<open>null\<close>) ends in the
  \<^verbatim>\<open>catch\<close>, which returns the defaults.
\<close>

definition loadOverlays :: "(string \<Rightarrow> json option) \<Rightarrow> string \<Rightarrow> string option \<Rightarrow> json" where
  "loadOverlays parse now raw =
     (let defaults = overlays_json (defaultOverlays now) in
      case raw of
        None \<Rightarrow> defaults
      | Some text \<Rightarrow>
          if text = [] then defaults
          else
            (case parse text of
               None \<Rightarrow> defaults
             | Some obj \<Rightarrow> if nullish obj then defaults else normalized defaults obj))"

text \<open>
  A stored overlay with a valid list of deletions and a \<open>learning\<close> object whose log is
  a string and whose statistics are a number.
\<close>

definition corrupt_learning_text :: string where
  \<open>corrupt_learning_text = ''{"deletions":["t1"],"learning":{"completion_log":"oops","stats":5}}''\<close>

section \<open>Properties of the merge\<close>

lemma map_of_assign_props:
  "map_of (assign_props target ps) k =
     (case map_of (rev ps) k of Some v \<Rightarrow> Some v | None \<Rightarrow> map_of target k)"
  unfolding assign_props_def
proof (induction ps arbitrary: target)
  case Nil
  show ?case by simp
next
  case (Cons p ps)
  obtain a b where p: "p = (a, b)" by (cases p)
  show ?case
    by (simp add: p Cons.IH update_conv' map_add_def split: option.split)
qed

lemma map_err_Inr_D:
  "map_err f xs = Inr ys \<Longrightarrow> list_all2 (\<lambda>x y. f x = Inr y) xs ys"
  by (induction xs arbitrary: ys) (auto split: sum.splits)

lemma map_err_Inr_I:
  "list_all2 (\<lambda>x y. f x = Inr y) xs ys \<Longrightarrow> map_err f xs = Inr ys"
  by (induction rule: list_all2_induct) auto

lemma map_err_set:
  "map_err f xs = Inr ys \<Longrightarrow> y \<in> set ys \<Longrightarrow> \<exists>x \<in> set xs. f x = Inr y"
  by (induction xs arbitrary: ys) (auto split: sum.splits)

lemma map_err_set_rev:
  "map_err f xs = Inr ys \<Longrightarrow> x \<in> set xs \<Longrightarrow> \<exists>y \<in> set ys. f x = Inr y"
  by (induction xs arbitrary: ys) (auto split: sum.splits)

lemma dec_nat_digits: "set (dec_nat n) \<subseteq> set ''0123456789''"
proof (induction n rule: dec_nat.induct)
  case (1 n)
  have nth_in: "\<And>d. d < 10 \<Longrightarrow> ''0123456789'' ! d \<in> set ''0123456789''"
    by (rule nth_mem) simp
  show ?case
  proof (cases "n < 10")
    case True
    then show ?thesis using nth_in [of n] by (subst dec_nat.simps) simp
  next
    case False
    have "n mod 10 < 10" by simp
    with False "1.IH" nth_in [of "n mod 10"] show ?thesis
      by (subst dec_nat.simps) simp
  qed
qed

lemma dec_nat_not_id: "dec_nat n \<noteq> ''id''"
proof
  assume "dec_nat n = ''id''"
  then have "CHR ''i'' \<in> set (dec_nat n)" by simp
  with dec_nat_digits [of n] show False by auto
qed

lemma index_of_key_id: "index_of_key n ''id'' = None"
  by (simp add: index_of_key_def find_None_iff dec_nat_not_id)

lemma map_of_indexed_id: "map_of (zip (map dec_nat ns) xs) ''id'' = None"
proof -
  have "''id'' \<notin> set (map dec_nat ns)"
  proof
    assume "''id'' \<in> set (map dec_nat ns)"
    then obtain n where "dec_nat n = ''id''" by auto
    with dec_nat_not_id show False by blast
  qed
  then have "''id'' \<notin> fst ` set (zip (map dec_nat ns) xs)"
    by (metis (no_types, lifting) imageE in_set_zipE prod.collapse)
  then show ?thesis by (simp add: map_of_eq_None_iff)
qed

lemma truthy_id_is_object:
  assumes "truthy (get_prop t ''id'')"
  shows "\<exists>kvs. t = JObj kvs"
  using assms by (cases t) (simp_all add: index_of_key_id)

lemma has_value_iff: "has_value xs v \<longleftrightarrow> (\<exists>x \<in> set xs. same_value_zero x v)"
  by (simp add: has_value_def list_ex_iff)

lemma get_prop_spread2:
  "get_prop (spread2 a b) k =
     (case map_of (rev (own_props b)) k of Some v \<Rightarrow> v | None \<Rightarrow>
        (case map_of (own_props a) k of Some v \<Rightarrow> v | None \<Rightarrow> JUndef))"
  by (simp add: spread2_def map_of_assign_props split: option.split)

lemma apply_override_id:
  assumes "apply_override overrides t = Inr t'"
      and "truthy (get_prop t ''id'')"
      and "list_all (\<lambda>(k, p). ''id'' \<notin> fst ` set p) overrides"
  shows "get_prop t' ''id'' = get_prop t ''id''"
proof -
  obtain kvs where t: "t = JObj kvs" using truthy_id_is_object [OF assms(2)] by blast
  obtain k where k: "to_str (get_prop t ''id'') = Some k"
    using assms(1) by (auto simp: apply_override_def split: option.splits)
  show ?thesis
  proof (cases "map_of overrides k")
    case None
    with assms(1) k show ?thesis by (simp add: apply_override_def)
  next
    case (Some p)
    then have "(k, p) \<in> set overrides" by (rule map_of_SomeD)
    with assms(3) have "''id'' \<notin> fst ` set p" by (auto simp: list_all_iff)
    then have "map_of (rev p) ''id'' = None" by (simp add: map_of_eq_None_iff)
    moreover have "t' = spread2 t (JObj p)"
      using assms(1) k Some by (simp add: apply_override_def)
    ultimately show ?thesis by (simp add: get_prop_spread2 t)
  qed
qed

lemma merged_item_origin:
  assumes "mergeData dataset ov = Inr m"
      and "x \<in> set (tasks m) \<union> set (events m)"
  shows "(\<exists>t. keeps (deletions ov) t \<and> apply_override (task_overrides ov) t = Inr x)
       \<or> (x \<in> set (new_tasks ov) \<and> keeps (deletions ov) x)"
proof -
  from assms(1) obtain ts es where
    ts: "map_err (apply_override (task_overrides ov))
           (filter (keeps (deletions ov)) (array_or_empty (get_prop dataset ''tasks''))) = Inr ts"
    and es: "map_err (apply_override (task_overrides ov))
           (filter (keeps (deletions ov)) (array_or_empty (get_prop dataset ''events''))) = Inr es"
    and m: "tasks m = ts @ appended (deletions ov) (new_tasks ov)" "events m = es"
    by (auto simp: mergeData_def Let_def split: if_splits sum.splits)
  from assms(2) m consider "x \<in> set ts" | "x \<in> set es" | "x \<in> set (appended (deletions ov) (new_tasks ov))"
    by auto
  then show ?thesis
  proof cases
    case 1
    from map_err_set [OF ts 1] show ?thesis by auto
  next
    case 2
    from map_err_set [OF es 2] show ?thesis by auto
  next
    case 3
    then show ?thesis by (auto simp: appended_def keeps_def)
  qed
qed

subsection \<open>Deletion dominance\<close>

text \<open>
  C1. For every base dataset and overlay, and every id in \<open>overlay.deletions\<close>, no item
  with that id appears in the tasks or events of \<open>merge(base, overlay)\<close>, whatever patches
  \<open>task_overrides\<close> holds for it and whether or not the base has it. The merge filters on
  the id an item has before its patch is applied, so this holds when no patch writes
  the \<open>id\<close> field: provided no patch of \<open>task_overrides\<close> has an \<open>id\<close> key, whenever the
  merge returns a view, no task or event of the view has an id that is in \<open>deletions\<close>.
\<close>

theorem deletion_dominance_without_id_patch:
  assumes "mergeData dataset ov = Inr m"
      and "list_all (\<lambda>(k, p). ''id'' \<notin> fst ` set p) (task_overrides ov)"
      and "d \<in> set (deletions ov)"
      and "x \<in> set (tasks m) \<union> set (events m)"
  shows "\<not> same_value_zero d (get_prop x ''id'')"
proof -
  have kept: "\<And>t. keeps (deletions ov) t \<Longrightarrow> \<not> same_value_zero d (get_prop t ''id'')"
    using assms(3) by (auto simp: keeps_def has_value_iff)
  from merged_item_origin [OF assms(1) assms(4)] show ?thesis
  proof
    assume "\<exists>t. keeps (deletions ov) t \<and> apply_override (task_overrides ov) t = Inr x"
    then obtain t where t: "keeps (deletions ov) t" "apply_override (task_overrides ov) t = Inr x"
      by blast
    from t(1) have "truthy (get_prop t ''id'')" by (simp add: keeps_def)
    from apply_override_id [OF t(2) this assms(2)] kept [OF t(1)] show ?thesis by simp
  next
    assume "x \<in> set (new_tasks ov) \<and> keeps (deletions ov) x"
    with kept show ?thesis by blast
  qed
qed


theorem deletion_dominance_without_id_patch_witness:
  "mergeData del_base del_ov = Inr del_merged
   \<and> list_all (\<lambda>(k, p). ''id'' \<notin> fst ` set p) (task_overrides del_ov)
   \<and> JStr ''b'' \<in> set (deletions del_ov)
   \<and> list_all (\<lambda>x. \<not> same_value_zero (JStr ''b'') (get_prop x ''id''))
         (tasks del_merged @ events del_merged)"
proof -
  have h1: "mergeData del_base del_ov = Inr del_merged"
    by (simp add: del_base_def del_ov_def del_merged_def mergeData_def defaultOverlays_def
        keeps_def has_value_def apply_override_def spread2_def assign_props_def appended_def)
  have h2: "list_all (\<lambda>(k, p). ''id'' \<notin> fst ` set p) (task_overrides del_ov)"
    by (simp add: del_ov_def)
  have h3: "JStr ''b'' \<in> set (deletions del_ov)"
    by (simp add: del_ov_def)
  have "\<And>x. x \<in> set (tasks del_merged) \<union> set (events del_merged)
      \<Longrightarrow> \<not> same_value_zero (JStr ''b'') (get_prop x ''id'')"
    by (rule deletion_dominance_without_id_patch [OF h1 h2 h3])
  then have "list_all (\<lambda>x. \<not> same_value_zero (JStr ''b'') (get_prop x ''id''))
      (tasks del_merged @ events del_merged)"
    by (simp add: list_all_iff)
  with h1 h2 h3 show ?thesis by blast
qed

text \<open>
  The claim as stated fails for a patch that rewrites the id: task \<open>a\<close> survives the
  filter, its patch sets its id to \<open>b\<close>, and the merged view lists a task with the
  deleted id \<open>b\<close>.
\<close>

theorem deletion_dominance_counterexample:
  "JStr ''b'' \<in> set (deletions idpatch_ov)
   \<and> map_sum id tasks (mergeData idpatch_base idpatch_ov)
       = Inr [JObj [(''id'', JStr ''b''), (''title'', JStr ''A'')]]
   \<and> get_prop (JObj [(''id'', JStr ''b''), (''title'', JStr ''A'')]) ''id'' = JStr ''b''"
  by (simp add: idpatch_base_def idpatch_ov_def mergeData_def defaultOverlays_def keeps_def
      has_value_def apply_override_def spread2_def assign_props_def appended_def)

lemma apply_override_patched_by:
  "apply_override overrides t = Inr t' \<longleftrightarrow> patched_by overrides t t'"
  by (auto simp: apply_override_def patched_by_def split: option.splits)

subsection \<open>Patches reach events\<close>

text \<open>
  C10. In \<open>merge(base, overlay)\<close> the patches of \<open>task_overrides\<close> are applied to base
  events exactly as to base tasks: every surviving base event whose id has a patch is
  replaced by the shallow merge of the event and the patch, so a patch keyed by an event
  id changes the merged event.
\<close>

theorem task_overrides_patch_events:
  assumes "mergeData dataset ov = Inr m"
  shows "list_all2 (patched_by (task_overrides ov))
           (filter (keeps (deletions ov)) (array_or_empty (get_prop dataset ''events'')))
           (events m)
       \<and> list_all2 (patched_by (task_overrides ov))
           (filter (keeps (deletions ov)) (array_or_empty (get_prop dataset ''tasks'')))
           (take (length (filter (keeps (deletions ov)) (array_or_empty (get_prop dataset ''tasks''))))
              (tasks m))"
proof -
  from assms obtain ts es where
    ts: "map_err (apply_override (task_overrides ov))
           (filter (keeps (deletions ov)) (array_or_empty (get_prop dataset ''tasks''))) = Inr ts"
    and es: "map_err (apply_override (task_overrides ov))
           (filter (keeps (deletions ov)) (array_or_empty (get_prop dataset ''events''))) = Inr es"
    and m: "tasks m = ts @ appended (deletions ov) (new_tasks ov)" "events m = es"
    by (auto simp: mergeData_def Let_def split: if_splits sum.splits)
  have e: "list_all2 (patched_by (task_overrides ov))
      (filter (keeps (deletions ov)) (array_or_empty (get_prop dataset ''events''))) es"
    using map_err_Inr_D [OF es] by (simp add: apply_override_patched_by)
  have t: "list_all2 (patched_by (task_overrides ov))
      (filter (keeps (deletions ov)) (array_or_empty (get_prop dataset ''tasks''))) ts"
    using map_err_Inr_D [OF ts] by (simp add: apply_override_patched_by)
  from t have "length (filter (keeps (deletions ov)) (array_or_empty (get_prop dataset ''tasks''))) = length ts"
    by (rule list_all2_lengthD)
  with e t m show ?thesis by simp
qed

theorem task_overrides_patch_events_witness:
  "mergeData ev_base ev_ov = Inr ev_merged
   \<and> list_all2 (patched_by [(''e1'', [(''title'', JStr ''New'')])])
        [JObj [(''id'', JStr ''e1''), (''title'', JStr ''Old''), (''start_date'', JStr ''2024-03-01'')]]
        [JObj [(''id'', JStr ''e1''), (''title'', JStr ''New''), (''start_date'', JStr ''2024-03-01'')]]"
proof -
  have h: "mergeData ev_base ev_ov = Inr ev_merged"
    by (simp add: ev_base_def ev_ov_def ev_merged_def mergeData_def defaultOverlays_def
        keeps_def has_value_def apply_override_def spread2_def assign_props_def appended_def)
  have k: "filter (keeps (deletions ev_ov)) (array_or_empty (get_prop ev_base ''events''))
      = [JObj [(''id'', JStr ''e1''), (''title'', JStr ''Old''), (''start_date'', JStr ''2024-03-01'')]]"
    by (simp add: ev_base_def ev_ov_def defaultOverlays_def keeps_def has_value_def)
  from task_overrides_patch_events [OF h] k h show ?thesis
    by (simp add: ev_ov_def ev_merged_def)
qed

subsection \<open>Recurrence rules\<close>

text \<open>
  C6. Every rule of \<open>merge(base, overlay).recurrence_rules\<close> carries a boolean enabled
  flag resolved from \<open>overlay.recurrence_overrides\<close>, defaulting to true. The merge does
  not do this: it passes the base's rules through as they are (the empty list when the
  base has no array of rules) and adds no flag. The switch is resolved when the recurring
  panel renders, per rule, as the \<open>enabled\<close> value of the override stored for the rule's
  id, and as true when there is no override or the override holds no \<open>enabled\<close> value.
\<close>

theorem recurrence_rules_pass_through:
  assumes "mergeData dataset ov = Inr m"
  shows "recurrence_rules m = array_or_empty (get_prop dataset ''recurrence_rules'')
       \<and> (\<forall>r k. \<not> nullish r \<and> to_str (get_prop r ''id'') = Some k \<longrightarrow>
             rule_enabled ov r =
               Inr (case map_of (recurrence_overrides ov) k of
                      None \<Rightarrow> JBool True
                    | Some entry \<Rightarrow>
                        if nullish entry \<or> nullish (get_prop entry ''enabled'') then JBool True
                        else get_prop entry ''enabled''))"
proof -
  have "recurrence_rules m = array_or_empty (get_prop dataset ''recurrence_rules'')"
    using assms by (auto simp: mergeData_def Let_def split: if_splits sum.splits)
  moreover have "\<And>r k. \<not> nullish r \<Longrightarrow> to_str (get_prop r ''id'') = Some k \<Longrightarrow>
      rule_enabled ov r =
        Inr (case map_of (recurrence_overrides ov) k of
               None \<Rightarrow> JBool True
             | Some entry \<Rightarrow>
                 if nullish entry \<or> nullish (get_prop entry ''enabled'') then JBool True
                 else get_prop entry ''enabled'')"
    by (simp add: rule_enabled_def coalesce_def Let_def split: option.split)
  ultimately show ?thesis by blast
qed

theorem recurrence_rules_pass_through_witness:
  "mergeData rec_base rec_ov = Inr rec_merged
   \<and> recurrence_rules rec_merged = [JObj [(''id'', JStr ''r1''), (''title'', JStr ''Weekly'')]]
   \<and> rule_enabled rec_ov (JObj [(''id'', JStr ''r1''), (''title'', JStr ''Weekly'')]) = Inr (JBool False)
   \<and> rule_enabled rec_ov (JObj [(''id'', JStr ''r2'')]) = Inr (JBool True)"
proof -
  have h: "mergeData rec_base rec_ov = Inr rec_merged"
    by (simp add: rec_base_def rec_ov_def rec_merged_def mergeData_def defaultOverlays_def
        keeps_def has_value_def apply_override_def spread2_def assign_props_def appended_def)
  have r1: "\<not> nullish (JObj [(''id'', JStr ''r1''), (''title'', JStr ''Weekly'')])
      \<and> to_str (get_prop (JObj [(''id'', JStr ''r1''), (''title'', JStr ''Weekly'')]) ''id'') = Some ''r1''"
    by simp
  have r2: "\<not> nullish (JObj [(''id'', JStr ''r2'')])
      \<and> to_str (get_prop (JObj [(''id'', JStr ''r2'')]) ''id'') = Some ''r2''"
    by simp
  from recurrence_rules_pass_through [OF h] have
    a: "recurrence_rules rec_merged = array_or_empty (get_prop rec_base ''recurrence_rules'')"
    and b: "\<And>r k. \<not> nullish r \<and> to_str (get_prop r ''id'') = Some k \<Longrightarrow>
             rule_enabled rec_ov r =
               Inr (case map_of (recurrence_overrides rec_ov) k of
                      None \<Rightarrow> JBool True
                    | Some entry \<Rightarrow>
                        if nullish entry \<or> nullish (get_prop entry ''enabled'') then JBool True
                        else get_prop entry ''enabled'')"
    by blast+
  from a have "recurrence_rules rec_merged = [JObj [(''id'', JStr ''r1''), (''title'', JStr ''Weekly'')]]"
    by (simp add: rec_base_def)
  moreover from b [OF r1] have
    "rule_enabled rec_ov (JObj [(''id'', JStr ''r1''), (''title'', JStr ''Weekly'')]) = Inr (JBool False)"
    by (simp add: rec_ov_def)
  moreover from b [OF r2] have "rule_enabled rec_ov (JObj [(''id'', JStr ''r2'')]) = Inr (JBool True)"
    by (simp add: rec_ov_def)
  ultimately show ?thesis using h by blast
qed

text \<open>
  The claim as stated fails: the overlay switches rule \<open>r1\<close> off, and the rule of the
  merged view has no \<open>enabled\<close> entry at all.
\<close>

theorem recurrence_enabled_flag_counterexample:
  "map_of (recurrence_overrides rec_ov) ''r1'' = Some (JObj [(''enabled'', JBool False)])
   \<and> map_sum id recurrence_rules (mergeData rec_base rec_ov)
       = Inr [JObj [(''id'', JStr ''r1''), (''title'', JStr ''Weekly'')]]
   \<and> get_prop (JObj [(''id'', JStr ''r1''), (''title'', JStr ''Weekly'')]) ''enabled'' = JUndef"
  by (simp add: rec_base_def rec_ov_def mergeData_def defaultOverlays_def keeps_def
      has_value_def apply_override_def spread2_def assign_props_def appended_def)

section \<open>Properties of the classifier\<close>

lemma split_step_cases:
  "split_step (a, r) op =
     (if \<not> is_op_object op then (a, r)
      else if auto_appliable op then (a @ [op], r)
      else (a, r @ [op]))"
proof -
  have temp: "(case get_prop op ''id'' of JStr s \<Rightarrow> \<not> startsWith s ''temp_'' | _ \<Rightarrow> False)
      \<longleftrightarrow> \<not> (case get_prop op ''id'' of JStr s \<Rightarrow> startsWith s ''temp_'' | _ \<Rightarrow> True)"
    by (cases "get_prop op ''id''") simp_all
  have dates: "set (field_keys op) \<subseteq> set safeFieldsAllow \<Longrightarrow>
      ''start_date'' \<notin> set (field_keys op) \<and> ''due_date'' \<notin> set (field_keys op)
      \<and> ''subtasks'' \<notin> set (field_keys op)"
    by (auto simp: safeFieldsAllow_def)
  show ?thesis
    unfolding split_step_def Let_def is_op_object_def auto_appliable_def temp
    using dates by (auto simp: list_all_iff)
qed

lemma foldl_split_step:
  "foldl split_step (a, r) ops =
     (a @ filter auto_appliable (filter is_op_object ops),
      r @ filter (\<lambda>op. \<not> auto_appliable op) (filter is_op_object ops))"
proof (induction ops arbitrary: a r)
  case Nil
  show ?case by simp
next
  case (Cons op ops)
  show ?case by (simp add: split_step_cases Cons.IH)
qed

text \<open>
  C2. \<open>classify\<close> partitions the list of operations into \<open>autoOps\<close> and \<open>reviewOps\<close>: an
  operation is in \<open>autoOps\<close> exactly when it is an update, its id is a string without the
  temporary prefix and every key of its fields is on the allowlist (so none of
  \<open>start_date\<close>, \<open>due_date\<close>, \<open>subtasks\<close> is present); every other operation is in
  \<open>reviewOps\<close>, and each list keeps the order of the input. The elements of the input that
  are objects are the ones partitioned, which is every element of a list of operations.
\<close>

theorem classify_partitions:
  "splitAiOpsForAutoApply payload =
     (filter auto_appliable (filter is_op_object (payload_ops payload)),
      filter (\<lambda>op. \<not> auto_appliable op) (filter is_op_object (payload_ops payload)))
   \<and> (list_all is_op_object (payload_ops payload) \<longrightarrow>
        splitAiOpsForAutoApply payload =
          (filter auto_appliable (payload_ops payload),
           filter (\<lambda>op. \<not> auto_appliable op) (payload_ops payload)))
   \<and> (\<forall>op \<in> set (fst (splitAiOpsForAutoApply payload)).
        ''start_date'' \<notin> set (field_keys op) \<and> ''due_date'' \<notin> set (field_keys op)
        \<and> ''subtasks'' \<notin> set (field_keys op))"
proof -
  have 1: "splitAiOpsForAutoApply payload =
     (filter auto_appliable (filter is_op_object (payload_ops payload)),
      filter (\<lambda>op. \<not> auto_appliable op) (filter is_op_object (payload_ops payload)))"
    by (simp add: splitAiOpsForAutoApply_def foldl_split_step)
  have 2: "list_all is_op_object (payload_ops payload) \<Longrightarrow>
      filter is_op_object (payload_ops payload) = payload_ops payload"
    by (simp add: list_all_iff)
  have 3: "\<And>op. auto_appliable op \<Longrightarrow>
      ''start_date'' \<notin> set (field_keys op) \<and> ''due_date'' \<notin> set (field_keys op)
      \<and> ''subtasks'' \<notin> set (field_keys op)"
    by (auto simp: auto_appliable_def safeFieldsAllow_def)
  have 4: "list_all is_op_object (payload_ops payload) \<Longrightarrow>
      splitAiOpsForAutoApply payload =
          (filter auto_appliable (payload_ops payload),
           filter (\<lambda>op. \<not> auto_appliable op) (payload_ops payload))"
    using 1 2 by (simp del: filter_filter)
  have 5: "\<And>op. op \<in> set (fst (splitAiOpsForAutoApply payload)) \<Longrightarrow> auto_appliable op"
    unfolding 1 by simp
  from 1 4 3 5 show ?thesis by blast
qed

theorem classify_partitions_witness:
  "list_all is_op_object (payload_ops split_payload)
   \<and> splitAiOpsForAutoApply split_payload =
       ([JObj [(''op'', JStr ''update''), (''id'', JStr ''t1''),
               (''fields'', JObj [(''title'', JStr ''X''), (''priority'', JNum 1)])],
         JObj [(''op'', JStr ''update''), (''id'', JStr ''t5''),
               (''fields'', JObj [(''notes'', JStr ''n'')])]],
        [JObj [(''op'', JStr ''update''), (''id'', JStr ''temp_abc''),
               (''fields'', JObj [(''title'', JStr ''Y'')])],
         JObj [(''op'', JStr ''update''), (''id'', JStr ''t3''),
               (''fields'', JObj [(''due_date'', JStr ''2024-02-01'')])],
         JObj [(''op'', JStr ''delete''), (''id'', JStr ''t4'')]])"
proof -
  have ops: "payload_ops split_payload =
       [JObj [(''op'', JStr ''update''), (''id'', JStr ''t1''),
              (''fields'', JObj [(''title'', JStr ''X''), (''priority'', JNum 1)])],
        JObj [(''op'', JStr ''update''), (''id'', JStr ''temp_abc''),
              (''fields'', JObj [(''title'', JStr ''Y'')])],
        JObj [(''op'', JStr ''update''), (''id'', JStr ''t3''),
              (''fields'', JObj [(''due_date'', JStr ''2024-02-01'')])],
        JObj [(''op'', JStr ''delete''), (''id'', JStr ''t4'')],
        JObj [(''op'', JStr ''update''), (''id'', JStr ''t5''),
              (''fields'', JObj [(''notes'', JStr ''n'')])]]"
    by (simp add: payload_ops_def split_payload_def)
  have objs: "list_all is_op_object (payload_ops split_payload)"
    by (simp add: ops is_op_object_def)
  from classify_partitions [of split_payload] objs
  have "splitAiOpsForAutoApply split_payload =
          (filter auto_appliable (payload_ops split_payload),
           filter (\<lambda>op. \<not> auto_appliable op) (payload_ops split_payload))"
    by blast
  then show ?thesis using objs
    by (simp add: ops auto_appliable_def field_keys_def or_else_def startsWith_def
        safeFieldsAllow_def)
qed

section \<open>Properties of validation\<close>

lemma check_op_Ok_iff: "check_op op = Inr Ok \<longleftrightarrow> well_formed_op op"
proof (cases "truthy op \<and> typeof_object op")
  case False
  then show ?thesis
    by (cases op) (auto simp: check_op_def well_formed_op_def non_null_object_def)
next
  case True
  then have obj: "non_null_object op"
    by (cases op) (auto simp: non_null_object_def)
  have kind: "allowed_has (get_prop op ''op'') \<longleftrightarrow> get_prop op ''op'' \<in> JStr ` set allowed_ops"
    by (cases "get_prop op ''op''") (auto simp: allowed_has_def)
  have ident: "\<And>v. (truthy v \<and> typeof_string v) \<longleftrightarrow> non_empty_string v"
    subgoal for v by (cases v) (auto simp: non_empty_string_def)
    done
  have fields: "\<And>v. (truthy v \<and> typeof_object v) \<longleftrightarrow> non_null_object v"
    subgoal for v by (cases v) (auto simp: non_null_object_def)
    done
  show ?thesis
    using True obj kind ident [of "get_prop op ''id''"] fields [of "get_prop op ''fields''"]
    by (auto simp: check_op_def well_formed_op_def split: option.splits)
qed

lemma validate_ops_Ok_iff: "validate_ops ops = Inr Ok \<longleftrightarrow> list_all well_formed_op ops"
proof (induction ops)
  case Nil
  show ?case by simp
next
  case (Cons op ops)
  show ?case
  proof (cases "check_op op = Inr Ok")
    case True
    with Cons.IH check_op_Ok_iff [of op] show ?thesis by simp
  next
    case False
    with check_op_Ok_iff [of op] show ?thesis
      by (auto split: sum.splits validation.splits)
  qed
qed

lemma validate_ops_first:
  assumes "list_all well_formed_op pre" and "\<not> well_formed_op bad"
  shows "validate_ops (pre @ bad # post) = check_op bad"
  using assms
proof (induction pre)
  case Nil
  then have "check_op bad \<noteq> Inr Ok" by (simp add: check_op_Ok_iff)
  then show ?case by (auto split: sum.splits validation.splits)
next
  case (Cons op pre)
  then have "check_op op = Inr Ok" by (simp add: check_op_Ok_iff)
  with Cons show ?case by simp
qed

lemma validatePayload_Ok_iff: "validatePayload payload = Inr Ok \<longleftrightarrow> structurally_valid payload"
proof -
  have obj: "(truthy payload \<and> typeof_object payload) \<longleftrightarrow> non_null_object payload"
    by (cases payload) (auto simp: non_null_object_def)
  show ?thesis
    using obj
    by (auto simp: validatePayload_def structurally_valid_def validate_ops_Ok_iff split: json.splits)
qed

lemma runOps_rejects:
  assumes "validatePayload (tryParseJsonFromText parse txt) \<noteq> Inr Ok"
  shows "isl (runOps enabled parse (Inr txt))"
  using assms
  by (auto simp: runOps_def Let_def split: sum.splits validation.splits)

lemma aiRefineTaskById_rejected:
  assumes "isl (runOps enabled parse response)"
  shows "fst (aiRefineTaskById w enabled parse response ident st) = st"
  using assms
  by (auto simp: aiRefineTaskById_def split: sum.splits option.splits)

lemma aiRebalanceToday_rejected:
  assumes "isl (runOps enabled parse response)"
  shows "aiRebalanceToday enabled parse response st = st"
  using assms
  by (auto simp: aiRebalanceToday_def split: sum.splits)

text \<open>
  C3. A suggestion payload that violates a structural check (the payload is not a non-null
  object, \<open>ops\<close> is not an array, an element is not a non-null object, a kind is not one of
  the five, an id is missing or not a non-empty string, an add or update has no object of
  fields) is rejected as a whole, with the first violation met reported, and the state is
  left as it was: no operation of the payload is applied, none is queued for review.
\<close>

theorem invalid_payload_rejected:
  assumes "\<not> structurally_valid payload"
  shows "validatePayload payload \<noteq> Inr Ok
       \<and> (\<forall>pre bad post.
            non_null_object payload \<and> get_prop payload ''ops'' = JArr (pre @ bad # post)
            \<and> list_all well_formed_op pre \<and> \<not> well_formed_op bad
            \<longrightarrow> validatePayload payload = check_op bad \<and> check_op bad \<noteq> Inr Ok)
       \<and> (\<forall>w enabled parse txt ident st.
            tryParseJsonFromText parse txt = payload
            \<longrightarrow> isl (runOps enabled parse (Inr txt))
              \<and> fst (aiRefineTaskById w enabled parse (Inr txt) ident st) = st
              \<and> aiRebalanceToday enabled parse (Inr txt) st = st)"
proof -
  have v: "validatePayload payload \<noteq> Inr Ok"
    using assms by (simp add: validatePayload_Ok_iff)
  have first: "\<And>pre bad post.
      non_null_object payload \<Longrightarrow> get_prop payload ''ops'' = JArr (pre @ bad # post)
      \<Longrightarrow> list_all well_formed_op pre \<Longrightarrow> \<not> well_formed_op bad
      \<Longrightarrow> validatePayload payload = check_op bad \<and> check_op bad \<noteq> Inr Ok"
  proof -
    fix pre bad post
    assume obj: "non_null_object payload"
      and ops: "get_prop payload ''ops'' = JArr (pre @ bad # post)"
      and pre: "list_all well_formed_op pre" and bad: "\<not> well_formed_op bad"
    from obj have "truthy payload \<and> typeof_object payload"
      by (cases payload) (auto simp: non_null_object_def)
    then have "validatePayload payload = validate_ops (pre @ bad # post)"
      by (simp add: validatePayload_def ops)
    with validate_ops_first [OF pre bad] bad
    show "validatePayload payload = check_op bad \<and> check_op bad \<noteq> Inr Ok"
      by (simp add: check_op_Ok_iff)
  qed
  have run: "\<And>w enabled parse txt ident st. tryParseJsonFromText parse txt = payload
      \<Longrightarrow> isl (runOps enabled parse (Inr txt))
        \<and> fst (aiRefineTaskById w enabled parse (Inr txt) ident st) = st
        \<and> aiRebalanceToday enabled parse (Inr txt) st = st"
  proof -
    fix w enabled parse raw ident st
    assume "tryParseJsonFromText parse raw = payload"
    with v have r: "isl (runOps enabled parse (Inr raw))" by (simp add: runOps_rejects)
    from aiRefineTaskById_rejected [OF r] aiRebalanceToday_rejected [OF r] r
    show "isl (runOps enabled parse (Inr raw))
        \<and> fst (aiRefineTaskById w enabled parse (Inr raw) ident st) = st
        \<and> aiRebalanceToday enabled parse (Inr raw) st = st"
      by simp
  qed
  from v first run show ?thesis by blast
qed

lemma bad_text_extracted: "tryParseJsonFromText json_parse bad_text = bad_payload"
  by code_simp

theorem invalid_payload_rejected_witness:
  "\<not> structurally_valid bad_payload
   \<and> tryParseJsonFromText json_parse bad_text = bad_payload
   \<and> validatePayload bad_payload = Inr (Invalid ''Unsupported op: rename'')
   \<and> fst (aiRefineTaskById world0 True json_parse (Inr bad_text) ''t1'' state0) = state0"
proof -
  have h: "\<not> structurally_valid bad_payload"
    by (simp add: structurally_valid_def bad_payload_def well_formed_op_def allowed_ops_def
        non_null_object_def non_empty_string_def)
  have obj: "non_null_object bad_payload"
    by (simp add: bad_payload_def non_null_object_def)
  have ops: "get_prop bad_payload ''ops'' =
      JArr ([JObj [(''op'', JStr ''update''), (''id'', JStr ''t1''), (''fields'', JObj [(''title'', JStr ''X'')])]]
            @ JObj [(''op'', JStr ''rename''), (''id'', JStr ''t2'')] # [JObj [(''op'', JStr ''delete'')]])"
    by (simp add: bad_payload_def)
  have pre: "list_all well_formed_op
      [JObj [(''op'', JStr ''update''), (''id'', JStr ''t1''), (''fields'', JObj [(''title'', JStr ''X'')])]]"
    by (simp add: well_formed_op_def allowed_ops_def non_null_object_def non_empty_string_def)
  have bad: "\<not> well_formed_op (JObj [(''op'', JStr ''rename''), (''id'', JStr ''t2'')])"
    by (simp add: well_formed_op_def allowed_ops_def)
  have msg: "check_op (JObj [(''op'', JStr ''rename''), (''id'', JStr ''t2'')])
      = Inr (Invalid ''Unsupported op: rename'')"
    by (simp add: check_op_def allowed_has_def allowed_ops_def)
  note rejected = invalid_payload_rejected [OF h]
  from rejected obj ops pre bad have "validatePayload bad_payload
      = check_op (JObj [(''op'', JStr ''rename''), (''id'', JStr ''t2'')])"
    by blast
  moreover from rejected bad_text_extracted
  have "fst (aiRefineTaskById world0 True json_parse (Inr bad_text) ''t1'' state0) = state0"
    by blast
  ultimately show ?thesis using h bad_text_extracted msg by simp
qed

section \<open>Properties of the completion log\<close>

lemma slice_last_append: "slice_last n (slice_last n xs @ ys) = slice_last n (xs @ ys)"
  by (cases "n \<le> length xs") (auto simp: slice_last_def add.commute)

lemma length_slice_last: "length (slice_last n xs) = min n (length xs)"
  by (auto simp: slice_last_def)

lemma length_logged_entries: "length (logged_entries w n ops) = length ops"
  by (induction ops arbitrary: n) auto

lemma learning_ensurePatch:
  "ensurePatch v st = Inr (k, st1) \<Longrightarrow> learning (overlays st1) = learning (overlays st) \<and> reads st1 = reads st"
  by (auto simp: ensurePatch_def split: option.splits)

lemma learning_write_patch:
  "learning (overlays (write_patch k props st)) = learning (overlays st)
   \<and> reads (write_patch k props st) = reads st"
  by (simp add: write_patch_def)

lemma op_complete_log:
  assumes "to_str (get_prop op ''id'') \<noteq> None"
  shows "\<exists>st'. op_complete w done op st = (st', Inr ())
     \<and> completion_log (learning (overlays st')) =
         slice_last 400 (completion_log (learning (overlays st))
           @ [JObj [(''id'', get_prop op ''id''), (''completed'', JBool done),
                    (''at'', JStr (now_at w (if done then Suc (reads st) else reads st)))]])
     \<and> completes (stats (learning (overlays st'))) = completes (stats (learning (overlays st))) + 1
     \<and> reads st' = (if done then Suc (Suc (reads st)) else Suc (reads st))"
proof -
  from assms obtain y where y: "to_str (get_prop op ''id'') = Some y" by blast
  have "\<exists>k st1. ensurePatch (get_prop op ''id'') st = Inr (k, st1)"
    by (cases "map_of (task_overrides (overlays st)) y") (simp_all add: ensurePatch_def y)
  then obtain k st1 where e: "ensurePatch (get_prop op ''id'') st = Inr (k, st1)" by blast
  from learning_ensurePatch [OF e] have l1: "learning (overlays st1) = learning (overlays st)"
    and r1: "reads st1 = reads st" by simp_all
  show ?thesis
    by (simp add: op_complete_def e logComplete_def Let_def learning_write_patch l1 r1)
qed

lemma apply_op_completion:
  assumes "is_completion_op op"
  shows "\<exists>st'. apply_op w op st = (st', Inr ())
     \<and> completion_log (learning (overlays st')) =
         slice_last 400 (completion_log (learning (overlays st)) @ logged_entries w (reads st) [op])
     \<and> completes (stats (learning (overlays st'))) = completes (stats (learning (overlays st))) + 1
     \<and> reads st' = (if get_prop op ''op'' = JStr ''complete'' then Suc (Suc (reads st)) else Suc (reads st))"
proof -
  from assms have i: "to_str (get_prop op ''id'') \<noteq> None" and n: "\<not> nullish op"
    and k: "get_prop op ''op'' = JStr ''complete'' \<or> get_prop op ''op'' = JStr ''undo_complete''"
    by (simp_all add: is_completion_op_def)
  from k show ?thesis
  proof
    assume c: "get_prop op ''op'' = JStr ''complete''"
    with op_complete_log [OF i, of w True st] n show ?thesis
      by (auto simp: apply_op_def)
  next
    assume c: "get_prop op ''op'' = JStr ''undo_complete''"
    with op_complete_log [OF i, of w False st] n show ?thesis
      by (auto simp: apply_op_def)
  qed
qed

lemma logged_entries_Cons:
  "logged_entries w n (op # ops) =
     logged_entries w n [op]
       @ logged_entries w (if get_prop op ''op'' = JStr ''complete'' then Suc (Suc n) else Suc n) ops"
  by simp

lemma apply_ops_loop_completions:
  assumes "list_all is_completion_op ops" and "ops \<noteq> []"
  shows "\<exists>st'. apply_ops_loop w ops st = (st', Inr ())
     \<and> completion_log (learning (overlays st')) =
         slice_last 400 (completion_log (learning (overlays st)) @ logged_entries w (reads st) ops)
     \<and> completes (stats (learning (overlays st'))) =
         completes (stats (learning (overlays st))) + int (length ops)"
  using assms
proof (induction ops arbitrary: st)
  case Nil
  then show ?case by simp
next
  case (Cons op ops)
  from Cons.prems have c: "is_completion_op op" and rest: "list_all is_completion_op ops" by simp_all
  from apply_op_completion [OF c, of w st] obtain st1 where
    s1: "apply_op w op st = (st1, Inr ())"
    and l1: "completion_log (learning (overlays st1)) =
         slice_last 400 (completion_log (learning (overlays st)) @ logged_entries w (reads st) [op])"
    and c1: "completes (stats (learning (overlays st1))) = completes (stats (learning (overlays st))) + 1"
    and r1: "reads st1 = (if get_prop op ''op'' = JStr ''complete'' then Suc (Suc (reads st)) else Suc (reads st))"
    by blast
  show ?case
  proof (cases "ops = []")
    case True
    with s1 l1 c1 show ?thesis by simp
  next
    case False
    from Cons.IH [OF rest False, of st1] obtain st' where
      s2: "apply_ops_loop w ops st1 = (st', Inr ())"
      and l2: "completion_log (learning (overlays st')) =
         slice_last 400 (completion_log (learning (overlays st1)) @ logged_entries w (reads st1) ops)"
      and c2: "completes (stats (learning (overlays st'))) =
         completes (stats (learning (overlays st1))) + int (length ops)"
      by blast
    have "completion_log (learning (overlays st')) =
        slice_last 400 ((completion_log (learning (overlays st)) @ logged_entries w (reads st) [op])
          @ logged_entries w (reads st1) ops)"
      unfolding l2 l1 by (rule slice_last_append)
    also have "\<dots> = slice_last 400 (completion_log (learning (overlays st))
          @ logged_entries w (reads st) (op # ops))"
      unfolding r1 by (subst (2) logged_entries_Cons) simp
    finally have l: "completion_log (learning (overlays st')) =
        slice_last 400 (completion_log (learning (overlays st))
          @ logged_entries w (reads st) (op # ops))" .
    from s1 s2 have "apply_ops_loop w (op # ops) st = (st', Inr ())" by simp
    with l c1 c2 show ?thesis by simp
  qed
qed

lemma applyOpsArray_learning:
  assumes "apply_ops_loop w ops st = (st1, Inr ())" and "ops \<noteq> []"
  shows "learning (overlays (fst (applyOpsArray w (JArr ops) st))) = learning (overlays st1)"
  using assms
  by (auto simp: applyOpsArray_def saveOverlays_def Let_def split: sum.splits)

text \<open>
  C5. For every sequence of complete and undo_complete operations applied to any overlay,
  the completion log is the last 400 entries of the old log followed by the entries of
  the sequence, in the order they were appended: it never exceeds 400 entries once an
  operation has been logged (nor when it started within the bound), and the oldest
  entries are the ones dropped. After 500 completion events its length is exactly 400 and
  it holds the 400 most recent entries in order. The completes counter goes up by one per
  logged event.
\<close>

theorem completion_log_bounded:
  assumes "list_all is_completion_op ops"
  shows "(ops \<noteq> [] \<longrightarrow>
            completion_log (learning (overlays (fst (applyOpsArray w (JArr ops) st)))) =
              slice_last 400 (completion_log (learning (overlays st)) @ logged_entries w (reads st) ops))
       \<and> (ops \<noteq> [] \<or> length (completion_log (learning (overlays st))) \<le> 400 \<longrightarrow>
            length (completion_log (learning (overlays (fst (applyOpsArray w (JArr ops) st))))) \<le> 400)
       \<and> completes (stats (learning (overlays (fst (applyOpsArray w (JArr ops) st))))) =
            completes (stats (learning (overlays st))) + int (length ops)
       \<and> (length ops = 500 \<longrightarrow>
            length (completion_log (learning (overlays (fst (applyOpsArray w (JArr ops) st))))) = 400
            \<and> completion_log (learning (overlays (fst (applyOpsArray w (JArr ops) st)))) =
                drop 100 (logged_entries w (reads st) ops))"
proof (cases "ops = []")
  case True
  then show ?thesis by (simp add: applyOpsArray_def)
next
  case False
  from apply_ops_loop_completions [OF assms False, of w st] obtain st1 where
    s: "apply_ops_loop w ops st = (st1, Inr ())"
    and l: "completion_log (learning (overlays st1)) =
         slice_last 400 (completion_log (learning (overlays st)) @ logged_entries w (reads st) ops)"
    and c: "completes (stats (learning (overlays st1))) =
         completes (stats (learning (overlays st))) + int (length ops)"
    by blast
  note a = applyOpsArray_learning [OF s False]
  have five: "length ops = 500 \<Longrightarrow>
      slice_last 400 (completion_log (learning (overlays st)) @ logged_entries w (reads st) ops)
        = drop 100 (logged_entries w (reads st) ops)"
    by (simp add: slice_last_def length_logged_entries)
  have len: "length (slice_last 400 (completion_log (learning (overlays st))
      @ logged_entries w (reads st) ops)) \<le> 400"
    by (simp add: length_slice_last)
  have len5: "length ops = 500 \<Longrightarrow> length (drop 100 (logged_entries w (reads st) ops)) = 400"
    by (simp add: length_logged_entries)
  from False a l c five len len5 show ?thesis by auto
qed

theorem completion_log_bounded_witness:
  "list_all is_completion_op completions500
   \<and> length (completion_log (learning (overlays (fst (applyOpsArray world0 (JArr completions500) state0))))) = 400
   \<and> completion_log (learning (overlays (fst (applyOpsArray world0 (JArr completions500) state0)))) =
       drop 100 (logged_entries world0 0 completions500)
   \<and> completes (stats (learning (overlays (fst (applyOpsArray world0 (JArr completions500) state0))))) = 500"
proof -
  have h: "list_all is_completion_op completions500"
    by (simp add: completions500_def list_all_iff is_completion_op_def)
  have n: "length completions500 = 500"
    by (simp add: completions500_def)
  have r: "reads state0 = 0" "completes (stats (learning (overlays state0))) = 0"
    by (simp_all add: state0_def defaultOverlays_def)
  from completion_log_bounded [OF h, of world0 state0] n r h show ?thesis
    by (simp add: length_logged_entries)
qed

section \<open>Properties of added items\<close>

lemma normalizeType_string: "normalizeType (JStr s) = Inr (trim (toLowerCase s))"
  by (auto simp: normalizeType_def or_else_def Let_def trim_def toLowerCase_def)

lemma op_add_type:
  assumes "op_add w op st = (st', Inr ())"
      and "get_prop (or_else (get_prop op ''fields'') (JObj [])) ''type'' = JStr s"
  shows "get_prop (last (new_tasks (overlays st'))) ''type'' =
           JStr (if trim (toLowerCase s) = [] then ''task'' else trim (toLowerCase s))"
proof -
  let ?fields = "or_else (get_prop op ''fields'') (JObj [])"
  from assms(1) obtain ident st1 title body where
    st': "st' = st1\<lparr> overlays := (overlays st1)
            \<lparr> new_tasks := new_tasks (overlays st1) @
                [JObj [(''id'', ident),
                       (''title'', JStr title),
                       (''type'', or_else (JStr (trim (toLowerCase s))) (JStr ''task'')),
                       (''pillar'', coalesce (get_prop ?fields ''pillar'') JNull),
                       (''owner_id'', coalesce (get_prop ?fields ''owner_id'') JNull),
                       (''start_date'', coalesce (get_prop ?fields ''start_date'') JNull),
                       (''due_date'', coalesce (get_prop ?fields ''due_date'') JNull),
                       (''priority'', coalesce (get_prop ?fields ''priority'') (JNum 2)),
                       (''notes'', JStr body),
                       (''subtasks'',
                          if isArray (get_prop ?fields ''subtasks'')
                          then get_prop ?fields ''subtasks'' else JUndef),
                       (''estimated_minutes'', coalesce (get_prop ?fields ''estimated_minutes'') JUndef),
                       (''energy'', coalesce (get_prop ?fields ''energy'') JUndef)]] \<rparr> \<rparr>"
    unfolding op_add_def Let_def assms(2) normalizeType_string
    by (simp split: sum.splits option.splits prod.splits) blast
  show ?thesis
    unfolding st' by (simp add: or_else_def)
qed

text \<open>
  C7. The type of an item created by an add is the supplied type when that value,
  lowercased and trimmed, is task, event or meeting, and \<open>task\<close> for every other input.
  The application's \<open>normalizeType\<close> returns the lowercased, trimmed value in both
  branches, so an unrecognized type is stored as it is; the copy of the function in the
  context builder returns \<open>task\<close> for it.
\<close>

theorem add_keeps_unrecognized_type:
  "map (\<lambda>t. get_prop t ''type'')
     (new_tasks (overlays (fst (applyOpsArray world0 (JArr [add_banana]) state0))))
     = [JStr ''banana'']
   \<and> snd (applyOpsArray world0 (JArr [add_banana]) state0) = Inr 1
   \<and> normalizeType_context (JStr ''Banana'') = Inr ''task''"
  by code_simp

section \<open>Properties of the extraction\<close>

lemma try_star_eq:
  "try_star rest k =
     (if CHR ''}'' \<in> set (take (Suc k) rest)
      then Some (rev (dropWhile (\<lambda>c. c \<noteq> CHR ''}'') (rev (take (Suc k) rest))))
      else None)"
proof (induction k)
  case 0
  show ?case by (cases rest) auto
next
  case (Suc k)
  show ?case
  proof (cases "Suc k < length rest")
    case True
    then have t: "take (Suc (Suc k)) rest = take (Suc k) rest @ [rest ! Suc k]"
      by (rule take_Suc_conv_app_nth)
    show ?thesis
    proof (cases "rest ! Suc k = CHR ''}''")
      case c: True
      with True show ?thesis by (simp add: t)
    next
      case c: False
      with True Suc.IH show ?thesis by (simp add: t)
    qed
  next
    case False
    then have "take (Suc (Suc k)) rest = take (Suc k) rest" by simp
    with False Suc.IH show ?thesis by simp
  qed
qed

lemma try_star_full:
  "try_star rest (length rest) =
     (if CHR ''}'' \<in> set rest
      then Some (rev (dropWhile (\<lambda>c. c \<noteq> CHR ''}'') (rev rest)))
      else None)"
  by (simp add: try_star_eq)

lemma regex_search_no_close: "CHR ''}'' \<notin> set s \<Longrightarrow> regex_search s = None"
  by (induction s) (auto simp: match_here_def try_star_full)

lemma regex_search_brace_span: "regex_search s = brace_span s"
proof (induction s)
  case Nil
  show ?case by (simp add: brace_span_def)
next
  case (Cons c rest)
  show ?case
  proof (cases "c = CHR ''{''")
    case False
    then have "match_here (c # rest) = None" by (simp add: match_here_def)
    moreover from False have "brace_span (c # rest) = brace_span rest"
      by (simp add: brace_span_def)
    ultimately show ?thesis using Cons.IH by simp
  next
    case True
    show ?thesis
    proof (cases "CHR ''}'' \<in> set rest")
      case c: True
      then have "dropWhile (\<lambda>c. c \<noteq> CHR ''}'') (rev rest @ [c])
          = dropWhile (\<lambda>c. c \<noteq> CHR ''}'') (rev rest) @ [c]"
        using dropWhile_append1 [of "CHR 0x7D" "rev rest" "\<lambda>c. c \<noteq> CHR 0x7D" "[c]"] by simp
      with True c show ?thesis
        by (simp add: match_here_def try_star_full brace_span_def)
    next
      case c: False
      with True show ?thesis
        by (simp add: match_here_def try_star_full brace_span_def regex_search_no_close)
    qed
  qed
qed

text \<open>
  C9. The payload extractor tolerates free text around the JSON by extracting the first
  balanced object from the response and parsing it. The pattern of the source is greedy:
  what is parsed is the whole trimmed text when it starts with an opening and ends with a
  closing brace and parses, and otherwise the text from the first opening brace to the
  last closing brace; the result is null when that span is missing or does not parse.
\<close>

theorem extraction_takes_brace_span:
  "tryParseJsonFromText parse txt =
     (case (if startsWith (trim txt) ''{'' \<and> endsWith (trim txt) ''}'' then parse (trim txt) else None) of
        Some v \<Rightarrow> v
      | None \<Rightarrow>
          (case brace_span txt of
             None \<Rightarrow> JNull
           | Some m \<Rightarrow> (case parse m of Some v \<Rightarrow> v | None \<Rightarrow> JNull)))"
  unfolding tryParseJsonFromText_def Let_def regex_search_brace_span by (rule refl)

lemma one_object_span:
  \<open>brace_span one_object = Some ''{"summary":"a","ops":[{"op":"delete","id":"t1"}]}''\<close>
  by code_simp

lemma one_object_trim: "startsWith (trim one_object) ''{'' = False"
  by code_simp

lemma one_object_parse:
  \<open>json_parse ''{"summary":"a","ops":[{"op":"delete","id":"t1"}]}''
     = Some (JObj [(''summary'', JStr ''a''),
                   (''ops'', JArr [JObj [(''op'', JStr ''delete''), (''id'', JStr ''t1'')]])])\<close>
  by code_simp

theorem extraction_takes_brace_span_witness:
  "tryParseJsonFromText json_parse one_object
     = JObj [(''summary'', JStr ''a''),
             (''ops'', JArr [JObj [(''op'', JStr ''delete''), (''id'', JStr ''t1'')]])]"
  using extraction_takes_brace_span [of json_parse one_object]
  by (simp add: one_object_span one_object_trim one_object_parse)

text \<open>
  The claim as stated fails on a response with two objects: the first balanced object
  parses, the span from the first opening to the last closing brace does not, and the
  extractor returns null.
\<close>

theorem first_balanced_object_counterexample:
  \<open>first_balanced two_objects = Some ''{"summary":"a","ops":[]}''
   \<and> json_parse ''{"summary":"a","ops":[]}'' = Some (JObj [(''summary'', JStr ''a''), (''ops'', JArr [])])
   \<and> json_parse_result ''{"summary":"a","ops":[]} then {"summary":"b","ops":[]}'' = Reject
   \<and> tryParseJsonFromText json_parse two_objects = JNull\<close>
  by code_simp

section \<open>Properties of deferring\<close>

lemma ensurePatch_string:
  "\<exists>st1. ensurePatch (JStr ident) st = Inr (ident, st1)
     \<and> (\<forall>f. get_prop (patch_at ident st1) f = get_prop (patch_at ident st) f)
     \<and> map_of (task_overrides (overlays st1)) ident \<noteq> None
     \<and> learning (overlays st1) = learning (overlays st)
     \<and> reads st1 = reads st"
  by (cases "map_of (task_overrides (overlays st)) ident")
     (simp_all add: ensurePatch_def patch_at_def update_conv')

lemma patch_at_write_patch:
  "get_prop (patch_at k (write_patch k props st)) f =
     (case map_of (rev props) f of Some v \<Rightarrow> v | None \<Rightarrow> get_prop (patch_at k st) f)"
  by (simp add: patch_at_def write_patch_def update_conv' map_of_assign_props
           split: option.splits)

lemma write_patch_others:
  "learning (overlays (write_patch k props st)) = learning (overlays st)"
  "reads (write_patch k props st) = reads st"
  by (simp_all add: write_patch_def)

lemma patch_at_logMove: "patch_at k (logMove w i a b r st) = patch_at k st"
  by (simp add: patch_at_def logMove_def Let_def)

lemma patch_at_saveOverlays: "patch_at k (saveOverlays w st) = patch_at k st"
  by (simp add: patch_at_def saveOverlays_def Let_def)

lemma learning_saveOverlays: "learning (overlays (saveOverlays w st)) = learning (overlays st)"
  by (simp add: saveOverlays_def Let_def)

lemma digit_val_nth: "k < 10 \<Longrightarrow> digit_val (''0123456789'' ! k) = Some k"
proof -
  assume "k < 10"
  then have "k = 0 \<or> k = 1 \<or> k = 2 \<or> k = 3 \<or> k = 4 \<or> k = 5 \<or> k = 6 \<or> k = 7 \<or> k = 8 \<or> k = 9"
    by arith
  then show ?thesis by (elim disjE) (simp_all add: digit_val_def)
qed

lemma dec_nat_all_digits: "list_all (\<lambda>c. digit_val c \<noteq> None) (dec_nat n)"
proof (induction n rule: dec_nat.induct)
  case (1 n)
  show ?case
  proof (cases "n < 10")
    case True
    with digit_val_nth [of n] show ?thesis by (subst dec_nat.simps) simp
  next
    case False
    with "1.IH" digit_val_nth [of "n mod 10"] show ?thesis by (subst dec_nat.simps) simp
  qed
qed

lemma dec_nat_value:
  "foldl (\<lambda>acc c. 10 * acc + (case digit_val c of Some d \<Rightarrow> d | None \<Rightarrow> 0)) 0 (dec_nat n) = n"
proof (induction n rule: dec_nat.induct)
  case (1 n)
  show ?case
  proof (cases "n < 10")
    case True
    with digit_val_nth [of n] show ?thesis by (subst dec_nat.simps) simp
  next
    case False
    with "1.IH" digit_val_nth [of "n mod 10"] show ?thesis by (subst dec_nat.simps) simp
  qed
qed

lemma dec_nat_length: "n < 10 ^ Suc k \<Longrightarrow> length (dec_nat n) \<le> Suc k"
proof (induction k arbitrary: n)
  case 0
  then show ?case by (subst dec_nat.simps) simp
next
  case (Suc k)
  show ?case
  proof (cases "n < 10")
    case True
    then show ?thesis by (subst dec_nat.simps) simp
  next
    case False
    from Suc.prems have "n div 10 < 10 ^ Suc k" by (simp add: less_mult_imp_div_less mult.commute)
    from Suc.IH [OF this] False show ?thesis by (subst dec_nat.simps) simp
  qed
qed

lemma digits_no_space: "list_all (\<lambda>c. digit_val c \<noteq> None) s \<Longrightarrow> list_all (\<lambda>c. \<not> is_space c) s"
  by (induction s) (auto simp: digit_val_def is_space_def split: if_splits)

lemma digits_no_dash: "list_all (\<lambda>c. digit_val c \<noteq> None) s \<Longrightarrow> CHR ''-'' \<notin> set s"
  by (induction s) (auto simp: digit_val_def split: if_splits)

lemma trim_no_space: "list_all (\<lambda>c. \<not> is_space c) s \<Longrightarrow> trim s = s"
proof -
  assume a: "list_all (\<lambda>c. \<not> is_space c) s"
  then have "dropWhile is_space s = s" by (cases s) simp_all
  moreover from a have "list_all (\<lambda>c. \<not> is_space c) (rev s)" by (simp add: list_all_iff)
  then have "dropWhile is_space (rev s) = rev s" by (cases "rev s") simp_all
  ultimately show ?thesis by (simp add: trim_def)
qed

lemma js_Number_digits:
  assumes "list_all (\<lambda>c. digit_val c \<noteq> None) s" and "s \<noteq> []" and "length s \<le> 5"
  shows "js_Number s =
    Done (foldl (\<lambda>acc c. 10 * acc + (case digit_val c of Some d \<Rightarrow> d | None \<Rightarrow> 0)) 0 s)"
  using assms trim_no_space [OF digits_no_space [OF assms(1)]]
  by (simp add: js_Number_def Let_def)

lemma dec_nat_nonempty: "dec_nat n \<noteq> []"
  by (subst dec_nat.simps) simp

lemma js_Number_dec_nat: "n < 100000 \<Longrightarrow> js_Number (dec_nat n) = Done n"
proof -
  assume "n < 100000"
  then have "n < 10 ^ Suc 4" by simp
  from dec_nat_length [OF this] have "length (dec_nat n) \<le> 5" by simp
  from js_Number_digits [OF dec_nat_all_digits dec_nat_nonempty this] show ?thesis
    by (simp add: dec_nat_value)
qed

lemma pad2_digits: "list_all (\<lambda>c. digit_val c \<noteq> None) (pad2 n)"
  using dec_nat_all_digits [of n] by (simp add: pad2_def digit_val_def)

lemma js_Number_pad2: "n < 100 \<Longrightarrow> js_Number (pad2 n) = Done n"
proof -
  assume n: "n < 100"
  then have "n < 10 ^ Suc 1" by simp
  from dec_nat_length [OF this] have l: "length (pad2 n) \<le> 5" by (simp add: pad2_def)
  have ne: "pad2 n \<noteq> []" by (simp add: pad2_def dec_nat_nonempty)
  have "foldl (\<lambda>acc c. 10 * acc + (case digit_val c of Some d \<Rightarrow> d | None \<Rightarrow> 0)) 0 (pad2 n) = n"
    using dec_nat_value [of n] by (simp add: pad2_def digit_val_def)
  with js_Number_digits [OF pad2_digits ne l] show ?thesis by simp
qed

lemma split_dash_no_dash: "CHR ''-'' \<notin> set s \<Longrightarrow> split_dash s = [s]"
  by (induction s) auto

lemma split_dash_append: "CHR ''-'' \<notin> set a \<Longrightarrow> split_dash (a @ CHR ''-'' # b) = a # split_dash b"
  by (induction a) auto

lemma add_days_within: "e + k \<le> days_in_month y m \<Longrightarrow> add_days k (y, m, e) = (y, m, e + k)"
  by (induction k arbitrary: e) auto

lemma mk_date_valid: "valid_date (y, m, d) \<Longrightarrow> mk_date y m d = (y, m, d)"
  using add_days_within [of 1 "d - 1" y m]
  by (auto simp: valid_date_def mk_date_def Let_def)

lemma parseISODate_iso:
  assumes "valid_date dt"
  shows "parseISODate (JStr (isoFromDate dt)) = Done (Some dt)"
proof -
  obtain y m d where dt: "dt = (y, m, d)" by (cases dt)
  from assms have v: "1000 \<le> y" "y \<le> 9999" "1 \<le> m" "m \<le> 12" "1 \<le> d" "d \<le> days_in_month y m"
    by (simp_all add: valid_date_def dt)
  from v(6) have d31: "d \<le> 31" by (auto simp: days_in_month_def split: if_splits)
  have nd: "CHR ''-'' \<notin> set (dec_nat y)" "CHR ''-'' \<notin> set (pad2 m)" "CHR ''-'' \<notin> set (pad2 d)"
    using digits_no_dash [OF dec_nat_all_digits] digits_no_dash [OF pad2_digits] by simp_all
  have parts: "split_dash (isoFromDate (y, m, d)) = [dec_nat y, pad2 m, pad2 d]"
    using nd by (simp add: split_dash_append split_dash_no_dash)
  have ny: "js_Number (dec_nat y) = Done y" using v(2) by (simp add: js_Number_dec_nat)
  have nm: "js_Number (pad2 m) = Done m" using v(4) by (simp add: js_Number_pad2)
  have ndd: "js_Number (pad2 d) = Done d" using d31 by (simp add: js_Number_pad2)
  have ne: "isoFromDate (y, m, d) \<noteq> []" by (simp add: dec_nat_nonempty)
  from v(1) v(3) v(5) have nz: "y \<noteq> 0" "m \<noteq> 0" "d \<noteq> 0" by simp_all
  show ?thesis
    unfolding dt parseISODate_def
    using ne nz mk_date_valid [of y m d] assms
    by (simp add: parts ny nm ndd Let_def dt del: isoFromDate.simps)
qed

lemma deferOneDay_effect:
  assumes item: "find_by_id ident (case merged st of None \<Rightarrow> [] | Some m \<Rightarrow> tasks m) = Inr item"
      and found: "truthy item"
      and cur: "cur = (let patch = patch_at ident st in
                  if truthy (get_prop patch ''due_date'') then get_prop patch ''due_date''
                  else if truthy (get_prop item ''due_date'') then get_prop item ''due_date''
                  else if truthy (get_prop patch ''start_date'') then get_prop patch ''start_date''
                  else get_prop item ''start_date'')"
      and dt: "parseISODate cur = Done (Some dt)"
  shows "\<exists>st' r. deferOneDay w ident st = Done (st', r)
       \<and> get_prop (patch_at ident st') ''due_date'' = JStr (isoFromDate (next_day dt))
       \<and> get_prop (patch_at ident st') ''start_date'' =
           (if truthy (get_prop (patch_at ident st) ''start_date'')
            then get_prop (patch_at ident st) ''start_date''
            else JStr (isoFromDate (next_day dt)))
       \<and> move_log (learning (overlays st')) =
           slice_last 400 (move_log (learning (overlays st)) @
             [JObj [(''id'', JStr ident),
                    (''from'', JObj [(''start_date'',
                                        coalesce (get_prop (patch_at ident st) ''start_date'')
                                          (coalesce (get_prop item ''start_date'') JNull)),
                                     (''due_date'',
                                        coalesce (get_prop (patch_at ident st) ''due_date'')
                                          (coalesce (get_prop item ''due_date'') JNull))]),
                    (''to'', JObj [(''start_date'',
                                      if truthy (get_prop (patch_at ident st) ''start_date'')
                                      then get_prop (patch_at ident st) ''start_date''
                                      else JStr (isoFromDate (next_day dt))),
                                   (''due_date'', JStr (isoFromDate (next_day dt)))]),
                    (''reason'', JStr ''defer_1d''),
                    (''at'', JStr (now_at w (reads st)))]])
       \<and> moves (stats (learning (overlays st'))) = moves (stats (learning (overlays st))) + 1"
proof -
  from ensurePatch_string [of ident st] obtain st1 where
    e: "ensurePatch (JStr ident) st = Inr (ident, st1)"
    and p1: "\<And>f. get_prop (patch_at ident st1) f = get_prop (patch_at ident st) f"
    and l1: "learning (overlays st1) = learning (overlays st)"
    and r1: "reads st1 = reads st"
    by blast
  have c: "current_date_field (patch_at ident st1) item = cur"
    by (simp add: current_date_field_def or_else_def p1 cur Let_def)
  let ?next = "JStr (isoFromDate (next_day dt))"
  let ?st3 = "write_patch ident [(''due_date'', ?next)] st1"
  let ?st4 = "if \<not> truthy (get_prop (patch_at ident ?st3) ''start_date'')
              then write_patch ident [(''start_date'', ?next)] ?st3 else ?st3"
  have s3: "get_prop (patch_at ident ?st3) ''start_date'' = get_prop (patch_at ident st) ''start_date''"
    by (simp add: patch_at_write_patch p1)
  have due4: "get_prop (patch_at ident ?st4) ''due_date'' = ?next"
    by (simp add: patch_at_write_patch)
  have start4: "get_prop (patch_at ident ?st4) ''start_date'' =
      (if truthy (get_prop (patch_at ident st) ''start_date'')
       then get_prop (patch_at ident st) ''start_date'' else ?next)"
    by (simp add: patch_at_write_patch p1)
  have l4: "learning (overlays ?st4) = learning (overlays st)"
    by (simp add: write_patch_others l1)
  have r4: "reads ?st4 = reads st"
    by (simp add: write_patch_others r1)
  let ?prior = "JObj [(''start_date'',
                         coalesce (get_prop (patch_at ident st1) ''start_date'')
                           (coalesce (get_prop item ''start_date'') JNull)),
                      (''due_date'',
                         coalesce (get_prop (patch_at ident st1) ''due_date'')
                           (coalesce (get_prop item ''due_date'') JNull))]"
  let ?st5 = "logMove w (JStr ident) ?prior
                (JObj [(''start_date'', get_prop (patch_at ident ?st4) ''start_date''),
                       (''due_date'', get_prop (patch_at ident ?st4) ''due_date'')])
                ''defer_1d'' ?st4"
  let ?st6 = "saveOverlays w ?st5"
  have run: "deferOneDay w ident st =
      (case mergeData (base ?st6) (overlays ?st6) of
         Inl e \<Rightarrow> Done (?st6, Inl e)
       | Inr m \<Rightarrow> Done (?st6\<lparr> merged := Some m \<rparr>, Inr ()))"
    unfolding deferOneDay_def item
    by (simp add: found e c dt Let_def)
  have p6: "\<And>f. get_prop (patch_at ident ?st6) f = get_prop (patch_at ident ?st4) f"
    by (simp only: patch_at_saveOverlays patch_at_logMove)
  have log6: "move_log (learning (overlays ?st6)) =
      slice_last 400 (move_log (learning (overlays st)) @
        [JObj [(''id'', JStr ident), (''from'', ?prior),
               (''to'', JObj [(''start_date'', get_prop (patch_at ident ?st4) ''start_date''),
                              (''due_date'', get_prop (patch_at ident ?st4) ''due_date'')]),
               (''reason'', JStr ''defer_1d''),
               (''at'', JStr (now_at w (reads st)))]])"
    unfolding learning_saveOverlays
    by (simp add: logMove_def Let_def l4 r4 del: patch_at_write_patch)
  have moves6: "moves (stats (learning (overlays ?st6))) = moves (stats (learning (overlays st))) + 1"
    unfolding learning_saveOverlays
    by (simp add: logMove_def Let_def l4)
  have same_patch: "\<And>m. patch_at ident (?st6\<lparr> merged := Some m \<rparr>) = patch_at ident ?st6"
    by (simp add: patch_at_def)
  show ?thesis
  proof (cases "mergeData (base ?st6) (overlays ?st6)")
    case (Inl err)
    with run have "deferOneDay w ident st = Done (?st6, Inl err)" by simp
    moreover note p6 [of "''due_date''"] p6 [of "''start_date''"] due4 start4 log6 moves6
    ultimately show ?thesis
      by (intro exI [of _ ?st6] exI [of _ "Inl err"]) (simp only: p1 simp_thms)
  next
    case (Inr m)
    with run have "deferOneDay w ident st = Done (?st6\<lparr> merged := Some m \<rparr>, Inr ())" by simp
    moreover have "overlays (?st6\<lparr> merged := Some m \<rparr>) = overlays ?st6" by simp
    moreover note p6 [of "''due_date''"] p6 [of "''start_date''"] due4 start4 log6 moves6 same_patch [of m]
    ultimately show ?thesis
      by (intro exI [of _ "?st6\<lparr> merged := Some m \<rparr>"] exI [of _ "Inr ()"]) (simp only: p1 simp_thms)
  qed
qed

text \<open>
  C8. For every item that has a due date or a start date (the patch value taking
  precedence over the base field), deferring by one day advances the later of the two by
  one calendar day and logs the move. The source starts from the due date and falls back
  to the start date only when there is no due date: for a task of the merged view whose
  date string, chosen in that order, parses as a date, the patched due date becomes the
  day after that date, the patched start date becomes the same day when the patch holds
  no start date, and the move is logged.
\<close>

theorem defer_advances_due_else_start:
  assumes item: "find_by_id ident (case merged st of None \<Rightarrow> [] | Some m \<Rightarrow> tasks m) = Inr item"
      and found: "truthy item"
      and cur: "cur = (let patch = patch_at ident st in
                  if truthy (get_prop patch ''due_date'') then get_prop patch ''due_date''
                  else if truthy (get_prop item ''due_date'') then get_prop item ''due_date''
                  else if truthy (get_prop patch ''start_date'') then get_prop patch ''start_date''
                  else get_prop item ''start_date'')"
      and dt: "parseISODate cur = Done (Some dt)"
  shows "\<exists>st' r. deferOneDay w ident st = Done (st', r)
       \<and> get_prop (patch_at ident st') ''due_date'' = JStr (isoFromDate (next_day dt))
       \<and> get_prop (patch_at ident st') ''start_date'' =
           (if truthy (get_prop (patch_at ident st) ''start_date'')
            then get_prop (patch_at ident st) ''start_date''
            else JStr (isoFromDate (next_day dt)))
       \<and> move_log (learning (overlays st')) =
           slice_last 400 (move_log (learning (overlays st)) @
             [JObj [(''id'', JStr ident),
                    (''from'', JObj [(''start_date'',
                                        coalesce (get_prop (patch_at ident st) ''start_date'')
                                          (coalesce (get_prop item ''start_date'') JNull)),
                                     (''due_date'',
                                        coalesce (get_prop (patch_at ident st) ''due_date'')
                                          (coalesce (get_prop item ''due_date'') JNull))]),
                    (''to'', JObj [(''start_date'',
                                      if truthy (get_prop (patch_at ident st) ''start_date'')
                                      then get_prop (patch_at ident st) ''start_date''
                                      else JStr (isoFromDate (next_day dt))),
                                   (''due_date'', JStr (isoFromDate (next_day dt)))]),
                    (''reason'', JStr ''defer_1d''),
                    (''at'', JStr (now_at w (reads st)))]])
       \<and> moves (stats (learning (overlays st'))) = moves (stats (learning (overlays st))) + 1"
  using item found cur dt by (rule deferOneDay_effect)

theorem defer_advances_due_else_start_witness:
  "\<exists>st' r. deferOneDay world0 ''t1'' defer_state = Done (st', r)
     \<and> get_prop (patch_at ''t1'' st') ''due_date'' = JStr ''2024-02-29''
     \<and> get_prop (patch_at ''t1'' st') ''start_date'' = JStr ''2024-02-29''
     \<and> moves (stats (learning (overlays st'))) = 1"
proof -
  let ?item = "JObj [(''id'', JStr ''t1''), (''due_date'', JStr ''2024-02-28''),
                     (''start_date'', JStr ''2024-02-20'')]"
  have item: "find_by_id ''t1'' (case merged defer_state of None \<Rightarrow> [] | Some m \<Rightarrow> tasks m) = Inr ?item"
    by (simp add: defer_state_def)
  have found: "truthy ?item" by simp
  have none: "patch_at ''t1'' defer_state = JUndef"
    by (simp add: patch_at_def defer_state_def defaultOverlays_def)
  have cur: "JStr ''2024-02-28'' = (let patch = patch_at ''t1'' defer_state in
                  if truthy (get_prop patch ''due_date'') then get_prop patch ''due_date''
                  else if truthy (get_prop ?item ''due_date'') then get_prop ?item ''due_date''
                  else if truthy (get_prop patch ''start_date'') then get_prop patch ''start_date''
                  else get_prop ?item ''start_date'')"
    by (simp add: none)
  have iso: "isoFromDate (2024, 2, 28) = ''2024-02-28''"
    by code_simp
  have "valid_date (2024, 2, 28)"
    by (simp add: valid_date_def days_in_month_def is_leap_def)
  from parseISODate_iso [OF this] have dt: "parseISODate (JStr ''2024-02-28'') = Done (Some (2024, 2, 28))"
    unfolding iso .
  have nxt: "isoFromDate (next_day (2024, 2, 28)) = ''2024-02-29''"
    by code_simp
  have m0: "moves (stats (learning (overlays defer_state))) = 0"
    by (simp add: defer_state_def defaultOverlays_def)
  from defer_advances_due_else_start [OF item found cur dt, of world0]
  show ?thesis
    unfolding nxt none m0 by auto
qed

text \<open>
  The claim as stated fails when the start date is the later one: the task is due on
  1 March and starts on 10 March; deferring it sets both patched dates to 2 March, and
  the later date, 10 March, is not advanced to 11 March.
\<close>

theorem defer_later_date_counterexample:
  "map_option tasks (merged late_start_state)
     = Some [JObj [(''id'', JStr ''t1''), (''due_date'', JStr ''2024-03-01''),
                   (''start_date'', JStr ''2024-03-10'')]]
   \<and> map_option (patched_field ''t1'' ''due_date'') (outcome_state (deferOneDay world0 ''t1'' late_start_state))
     = Some (JStr ''2024-03-02'')
   \<and> map_option (patched_field ''t1'' ''start_date'') (outcome_state (deferOneDay world0 ''t1'' late_start_state))
     = Some (JStr ''2024-03-02'')"
proof -
  let ?item = "JObj [(''id'', JStr ''t1''), (''due_date'', JStr ''2024-03-01''),
                     (''start_date'', JStr ''2024-03-10'')]"
  have item: "find_by_id ''t1'' (case merged late_start_state of None \<Rightarrow> [] | Some m \<Rightarrow> tasks m) = Inr ?item"
    by (simp add: late_start_state_def)
  have found: "truthy ?item" by simp
  have none: "patch_at ''t1'' late_start_state = JUndef"
    by (simp add: patch_at_def late_start_state_def defaultOverlays_def)
  have cur: "JStr ''2024-03-01'' = (let patch = patch_at ''t1'' late_start_state in
                  if truthy (get_prop patch ''due_date'') then get_prop patch ''due_date''
                  else if truthy (get_prop ?item ''due_date'') then get_prop ?item ''due_date''
                  else if truthy (get_prop patch ''start_date'') then get_prop patch ''start_date''
                  else get_prop ?item ''start_date'')"
    by (simp add: none)
  have iso: "isoFromDate (2024, 3, 1) = ''2024-03-01''"
    by code_simp
  have "valid_date (2024, 3, 1)"
    by (simp add: valid_date_def days_in_month_def)
  from parseISODate_iso [OF this] have dt: "parseISODate (JStr ''2024-03-01'') = Done (Some (2024, 3, 1))"
    unfolding iso .
  have nxt: "isoFromDate (next_day (2024, 3, 1)) = ''2024-03-02''"
    by code_simp
  from deferOneDay_effect [OF item found cur dt, of world0] obtain st' r where
    "deferOneDay world0 ''t1'' late_start_state = Done (st', r)"
    "get_prop (patch_at ''t1'' st') ''due_date'' = JStr ''2024-03-02''"
    "get_prop (patch_at ''t1'' st') ''start_date'' = JStr ''2024-03-02''"
    unfolding nxt none by auto
  then show ?thesis
    by (simp add: outcome_state_def patched_field_def late_start_state_def)
qed

section \<open>Properties of loading\<close>

lemma loadOverlays_cases:
  "loadOverlays parse now raw = overlays_json (defaultOverlays now)
   \<or> (\<exists>obj. loadOverlays parse now raw = normalized (overlays_json (defaultOverlays now)) obj)"
  by (auto simp: loadOverlays_def Let_def split: option.splits)

lemma truthy_object: "truthy v \<and> typeof_object v \<longleftrightarrow> non_null_object v"
  by (cases v) (auto simp: non_null_object_def)

lemma normalized_top_level:
  assumes "non_null_object (get_prop defaults ''learning'')"
  shows "isArray (get_prop (normalized defaults obj) ''deletions'')
   \<and> isArray (get_prop (normalized defaults obj) ''new_tasks'')
   \<and> non_null_object (get_prop (normalized defaults obj) ''task_overrides'')
   \<and> non_null_object (get_prop (normalized defaults obj) ''recurrence_overrides'')
   \<and> non_null_object (get_prop (normalized defaults obj) ''learning'')"
  using assms
  by (simp add: normalized_def map_of_assign_props truthy_object spread2_def non_null_object_def)

lemma loadOverlays_top_level:
  "isArray (get_prop (loadOverlays parse now raw) ''deletions'')
   \<and> isArray (get_prop (loadOverlays parse now raw) ''new_tasks'')
   \<and> non_null_object (get_prop (loadOverlays parse now raw) ''task_overrides'')
   \<and> non_null_object (get_prop (loadOverlays parse now raw) ''recurrence_overrides'')
   \<and> non_null_object (get_prop (loadOverlays parse now raw) ''learning'')"
proof -
  have d: "non_null_object (get_prop (overlays_json (defaultOverlays now)) ''learning'')"
    by (simp add: overlays_json_def learning_json_def non_null_object_def)
  from loadOverlays_cases [of parse now raw] show ?thesis
  proof
    assume "loadOverlays parse now raw = overlays_json (defaultOverlays now)"
    then show ?thesis
      by (simp add: overlays_json_def learning_json_def non_null_object_def)
  next
    assume "\<exists>obj. loadOverlays parse now raw = normalized (overlays_json (defaultOverlays now)) obj"
    then obtain obj where "loadOverlays parse now raw = normalized (overlays_json (defaultOverlays now)) obj"
      by blast
    with normalized_top_level [OF d, of obj] show ?thesis by simp
  qed
qed

text \<open>
  C4. \<open>load()\<close> always succeeds and returns a structurally complete overlay, defending
  each sub-field at every level on its own: a corrupt sub-field of \<open>learning\<close> comes back
  as its default while valid siblings such as \<open>deletions\<close> are kept. The five top-level
  fields are tested, and \<open>deletions\<close> is kept; the sub-fields of \<open>learning\<close> are not tested:
  the stored \<open>learning\<close> is spread over the default one, so a log that is a string and
  statistics that are a number come back as they were stored.
\<close>

theorem load_keeps_corrupt_learning_fields:
  "get_prop (loadOverlays json_parse ''2024-05-01T09:00:00.000Z'' (Some corrupt_learning_text)) ''deletions''
     = JArr [JStr ''t1'']
   \<and> get_prop (loadOverlays json_parse ''2024-05-01T09:00:00.000Z'' (Some corrupt_learning_text)) ''learning''
     = JObj [(''completion_log'', JStr ''oops''), (''move_log'', JArr []), (''stats'', JNum 5)]
   \<and> get_prop (overlays_json (defaultOverlays ''2024-05-01T09:00:00.000Z'')) ''learning''
     = JObj [(''completion_log'', JArr []), (''move_log'', JArr []),
             (''stats'', JObj [(''moves'', JNum 0), (''completes'', JNum 0)])]"
  by code_simp

end
